theory Spec2Isabelle
  imports Main
begin

section \<open>JavaScript values\<close>

text \<open>
  The script \<^verbatim>\<open>scriptable-mijnsimpel.js\<close> handles only values that come out of
  \<^verbatim>\<open>JSON.parse\<close>, out of the host's text fields, or out of a missing property
  (\<^verbatim>\<open>undefined\<close>). They are embedded as the datatype \<open>jsval\<close>.

  \<^item> A JavaScript string is a \<open>string\<close>; one \<open>char\<close> is one code unit, so the embedding
    covers the code units \<open>0x00\<close> to \<open>0xFF\<close>.
  \<^item> A JavaScript number is an \<open>int\<close>. Doubles that are not integers, and integers beyond
    \<open>Number.MAX_SAFE_INTEGER\<close>, are outside the embedding (negative zero is identified with
    zero: the script only compares, prints and serialises numbers, which treats both alike).
  \<^item> The list of an \<open>Obj\<close> is the object's own properties in enumeration order; a
    JavaScript object has each key once.
\<close>

datatype jsval =
    Undefined
  | Null
  | Bool bool
  | Num int
  | Str string
  | Arr "jsval list"
  | Obj "(string \<times> jsval) list"

text \<open>
  What a JavaScript computation can end with instead of a value. \<open>Error msg\<close> is the script's
  own \<^verbatim>\<open>throw new Error(msg)\<close>; \<open>TypeError\<close> and \<open>SyntaxError\<close> are raised by the
  language (a property read on \<^verbatim>\<open>undefined\<close> or \<^verbatim>\<open>null\<close>, a call of something that is
  not a function, \<^verbatim>\<open>JSON.parse\<close> on malformed text); \<open>HostTypeError\<close> is raised by the
  host's bridge when an argument has the wrong type; \<open>Transport\<close> is whatever a network request
  raises. \<open>Unmodelled\<close> is not a JavaScript exception: it marks an input whose value lies
  outside the embedding (a number literal with a fraction or an exponent or beyond the safe
  integers, a \<^verbatim>\<open>\u\<close> escape above \<open>0xFF\<close>).
\<close>

datatype fault =
    Error string
  | TypeError
  | SyntaxError
  | HostTypeError
  | Transport string
  | Unmodelled

subsection \<open>Number to string, string conversion\<close>

fun digits :: "nat \<Rightarrow> string" where
  "digits n =
     (if n < 10 then [char_of (48 + n)]
      else digits (n div 10) @ [char_of (48 + n mod 10)])"

declare digits.simps [simp del]

definition Number_toString :: "int \<Rightarrow> string" where
  "Number_toString n = (if n < 0 then CHR ''-'' # digits (nat (- n)) else digits (nat n))"

text \<open>\<^verbatim>\<open>Array.prototype.join\<close> on an array of strings.\<close>

fun join :: "string \<Rightarrow> string list \<Rightarrow> string" where
  "join sep [] = []"
| "join sep [x] = x"
| "join sep (x # y # ys) = x @ sep @ join sep (y # ys)"

text \<open>
  The abstract operation \<^verbatim>\<open>ToString\<close>, which a template literal applies to each
  substitution. An array prints its elements separated by commas, \<^verbatim>\<open>undefined\<close> and
  \<^verbatim>\<open>null\<close> elements as nothing. A plain object prints as \<^verbatim>\<open>[object Object]\<close> through
  \<^verbatim>\<open>Object.prototype.toString\<close>, unless an own property \<^verbatim>\<open>toString\<close> shadows that
  method with a value that cannot be called: then the conversion raises a \<^verbatim>\<open>TypeError\<close>.
\<close>

fun ToString :: "jsval \<Rightarrow> fault + string"
and ToString_elems :: "jsval list \<Rightarrow> fault + string list" where
  "ToString Undefined = Inr ''undefined''"
| "ToString Null = Inr ''null''"
| "ToString (Bool b) = Inr (if b then ''true'' else ''false'')"
| "ToString (Num n) = Inr (Number_toString n)"
| "ToString (Str s) = Inr s"
| "ToString (Arr xs) =
     (case ToString_elems xs of Inl e \<Rightarrow> Inl e | Inr ss \<Rightarrow> Inr (join '','' ss))"
| "ToString (Obj kvs) =
     (if ''toString'' \<in> fst ` set kvs then Inl TypeError else Inr ''[object Object]'')"
| "ToString_elems [] = Inr []"
| "ToString_elems (x # xs) =
     (case (if x = Undefined \<or> x = Null then Inr [] else ToString x) of
        Inl e \<Rightarrow> Inl e
      | Inr s \<Rightarrow> (case ToString_elems xs of Inl e \<Rightarrow> Inl e | Inr ss \<Rightarrow> Inr (s # ss)))"

text \<open>
  A property read \<^verbatim>\<open>v.k\<close>. On \<^verbatim>\<open>undefined\<close> and \<^verbatim>\<open>null\<close> it raises a
  \<^verbatim>\<open>TypeError\<close>; on an object it is the own property or \<^verbatim>\<open>undefined\<close>. The script reads
  only the names \<^verbatim>\<open>username\<close>, \<^verbatim>\<open>password\<close>, \<^verbatim>\<open>name\<close>, \<^verbatim>\<open>value\<close>,
  \<^verbatim>\<open>mainSubscription\<close> and \<^verbatim>\<open>subscriptionId\<close>, none of which a built-in prototype
  defines, so on a boolean, number, string or array the read is \<^verbatim>\<open>undefined\<close>.
\<close>

fun get_prop :: "jsval \<Rightarrow> string \<Rightarrow> fault + jsval" where
  "get_prop Undefined k = Inl TypeError"
| "get_prop Null k = Inl TypeError"
| "get_prop (Obj kvs) k = (case map_of kvs k of None \<Rightarrow> Inr Undefined | Some v \<Rightarrow> Inr v)"
| "get_prop v k = Inr Undefined"

section \<open>JSON.stringify\<close>

text \<open>
  \<^verbatim>\<open>JSON.stringify(value)\<close> with no replacer and no indentation, after
  \<^verbatim>\<open>SerializeJSONProperty\<close>, \<^verbatim>\<open>SerializeJSONArray\<close>, \<^verbatim>\<open>SerializeJSONObject\<close>
  and \<^verbatim>\<open>QuoteJSONString\<close> of the language standard. The result \<open>None\<close> is
  \<^verbatim>\<open>undefined\<close>: that is what \<^verbatim>\<open>JSON.stringify(undefined)\<close> returns. An
  \<^verbatim>\<open>undefined\<close> array element is written \<^verbatim>\<open>null\<close>; an \<^verbatim>\<open>undefined\<close> property is
  left out.
\<close>

definition hex_digit :: "nat \<Rightarrow> char" where
  "hex_digit d = (if d < 10 then char_of (48 + d) else char_of (87 + d))"

definition UnicodeEscape :: "char \<Rightarrow> string" where
  "UnicodeEscape c =
     [CHR 0x5C, CHR ''u'', CHR ''0'', CHR ''0'',
      hex_digit (of_char c div 16), hex_digit (of_char c mod 16)]"

definition QuoteJSONChar :: "char \<Rightarrow> string" where
  "QuoteJSONChar c =
    (if c = CHR 0x08 then [CHR 0x5C, CHR ''b'']
     else if c = CHR 0x09 then [CHR 0x5C, CHR ''t'']
     else if c = CHR 0x0A then [CHR 0x5C, CHR ''n'']
     else if c = CHR 0x0C then [CHR 0x5C, CHR ''f'']
     else if c = CHR 0x0D then [CHR 0x5C, CHR ''r'']
     else if c = CHR 0x22 then [CHR 0x5C, CHR 0x22]
     else if c = CHR 0x5C then [CHR 0x5C, CHR 0x5C]
     else if (of_char c :: nat) < 0x20 then UnicodeEscape c
     else [c])"

definition QuoteJSONString :: "string \<Rightarrow> string" where
  "QuoteJSONString s = CHR 0x22 # concat (map QuoteJSONChar s) @ [CHR 0x22]"

fun SerializeJSONProperty :: "jsval \<Rightarrow> string option"
and SerializeJSONArray :: "jsval list \<Rightarrow> string list"
and SerializeJSONObject :: "(string \<times> jsval) list \<Rightarrow> string list" where
  "SerializeJSONProperty Undefined = None"
| "SerializeJSONProperty Null = Some ''null''"
| "SerializeJSONProperty (Bool b) = Some (if b then ''true'' else ''false'')"
| "SerializeJSONProperty (Num n) = Some (Number_toString n)"
| "SerializeJSONProperty (Str s) = Some (QuoteJSONString s)"
| "SerializeJSONProperty (Arr xs) = Some (''['' @ join '','' (SerializeJSONArray xs) @ '']'')"
| "SerializeJSONProperty (Obj kvs) = Some (''{'' @ join '','' (SerializeJSONObject kvs) @ ''}'')"
| "SerializeJSONArray [] = []"
| "SerializeJSONArray (x # xs) =
     (case SerializeJSONProperty x of None \<Rightarrow> ''null'' | Some s \<Rightarrow> s) # SerializeJSONArray xs"
| "SerializeJSONObject [] = []"
| "SerializeJSONObject (kv # kvs) =
     (case SerializeJSONProperty (snd kv) of
        None \<Rightarrow> SerializeJSONObject kvs
      | Some s \<Rightarrow> (QuoteJSONString (fst kv) @ '':'' @ s) # SerializeJSONObject kvs)"

definition JSON_stringify :: "jsval \<Rightarrow> string option" where
  "JSON_stringify v = SerializeJSONProperty v"

section \<open>JSON.parse\<close>

text \<open>
  \<^verbatim>\<open>JSON.parse(text)\<close> with no reviver: the text is split into the tokens of the JSON
  grammar, and a stack machine builds the value from the tokens. Malformed text is a
  \<^verbatim>\<open>SyntaxError\<close>.
\<close>

datatype token =
    TLBrace | TRBrace | TLBracket | TRBracket | TColon | TComma
  | TStr string | TNum int | TTrue | TFalse | TNull

definition is_ws :: "char \<Rightarrow> bool" where
  "is_ws c = (c = CHR 0x20 \<or> c = CHR 0x09 \<or> c = CHR 0x0A \<or> c = CHR 0x0D)"

definition is_digit :: "char \<Rightarrow> bool" where
  "is_digit c = (48 \<le> (of_char c :: nat) \<and> (of_char c :: nat) \<le> 57)"

definition hex_val :: "char \<Rightarrow> nat option" where
  "hex_val c =
    (let n = (of_char c :: nat) in
     if 48 \<le> n \<and> n \<le> 57 then Some (n - 48)
     else if 97 \<le> n \<and> n \<le> 102 then Some (n - 87)
     else if 65 \<le> n \<and> n \<le> 70 then Some (n - 55)
     else None)"

definition hex4 :: "char \<Rightarrow> char \<Rightarrow> char \<Rightarrow> char \<Rightarrow> nat option" where
  "hex4 a b c d =
    (case (hex_val a, hex_val b, hex_val c, hex_val d) of
       (Some x, Some y, Some z, Some w) \<Rightarrow> Some (((x * 16 + y) * 16 + z) * 16 + w)
     | _ \<Rightarrow> None)"

definition unescape :: "char \<Rightarrow> char option" where
  "unescape e =
    (if e = CHR 0x22 then Some (CHR 0x22)
     else if e = CHR 0x5C then Some (CHR 0x5C)
     else if e = CHR ''/'' then Some (CHR ''/'')
     else if e = CHR ''b'' then Some (CHR 0x08)
     else if e = CHR ''f'' then Some (CHR 0x0C)
     else if e = CHR ''n'' then Some (CHR 0x0A)
     else if e = CHR ''r'' then Some (CHR 0x0D)
     else if e = CHR ''t'' then Some (CHR 0x09)
     else None)"

text \<open>The characters after a backslash inside a string: the character meant, and the rest.\<close>

definition lex_escape :: "string \<Rightarrow> fault + char \<times> string" where
  "lex_escape cs =
    (case cs of
       [] \<Rightarrow> Inl SyntaxError
     | e # r \<Rightarrow>
         if e = CHR ''u'' then
           (case r of
              a # b # c # d # r' \<Rightarrow>
                (case hex4 a b c d of
                   None \<Rightarrow> Inl SyntaxError
                 | Some n \<Rightarrow> if n < 256 then Inr (char_of n, r') else Inl Unmodelled)
            | _ \<Rightarrow> Inl SyntaxError)
         else
           (case unescape e of
              None \<Rightarrow> Inl SyntaxError
            | Some x \<Rightarrow> Inr (x, r)))"

lemma lex_escape_shorter: "lex_escape cs = Inr (x, r) \<Longrightarrow> length r < length cs"
  by (auto simp: lex_escape_def split: list.splits if_splits option.splits)

definition cons_str :: "char \<Rightarrow> fault + string \<times> string \<Rightarrow> fault + string \<times> string" where
  "cons_str c r = (case r of Inl e \<Rightarrow> Inl e | Inr (s, rest) \<Rightarrow> Inr (c # s, rest))"

text \<open>The characters after an opening quote: the string's value, and the rest after the
  closing quote.\<close>

function lex_string :: "string \<Rightarrow> fault + string \<times> string" where
  "lex_string [] = Inl SyntaxError"
| "lex_string (c # cs) =
    (if c = CHR 0x22 then Inr ([], cs)
     else if c = CHR 0x5C then
       (case lex_escape cs of
          Inl e \<Rightarrow> Inl e
        | Inr (x, r) \<Rightarrow> cons_str x (lex_string r))
     else if (of_char c :: nat) < 0x20 then Inl SyntaxError
     else cons_str c (lex_string cs))"
  by pat_completeness auto
termination
  by (relation "measure length") (auto dest: lex_escape_shorter)

lemma lex_string_shorter: "lex_string cs = Inr (s, r) \<Longrightarrow> length r < length cs"
proof (induction cs arbitrary: s rule: lex_string.induct)
  case 1
  then show ?case by simp
next
  case (2 c cs)
  then show ?case
    by (fastforce simp: cons_str_def split: if_splits sum.splits prod.splits
          dest: lex_escape_shorter)
qed

definition digits_val :: "string \<Rightarrow> nat" where
  "digits_val ds = foldl (\<lambda>acc c. acc * 10 + (of_char c - 48)) 0 ds"

definition MAX_SAFE_INTEGER :: int where
  "MAX_SAFE_INTEGER = 9007199254740991"

text \<open>An unsigned number literal at the head of the text. Only the integer literals up to
  \<open>MAX_SAFE_INTEGER\<close> have a value in the embedding; digits continued by a fraction or an
  exponent mark are reported as \<open>Unmodelled\<close>, whatever follows the mark.\<close>

definition lex_int :: "string \<Rightarrow> fault + nat \<times> string" where
  "lex_int s =
    (let ds = takeWhile is_digit s;
         rest = dropWhile is_digit s
     in if ds = [] then Inl SyntaxError
        else if hd ds = CHR ''0'' \<and> length ds > 1 then Inl SyntaxError
        else if rest \<noteq> [] \<and> hd rest \<in> {CHR ''.'', CHR ''e'', CHR ''E''} then Inl Unmodelled
        else if int (digits_val ds) > MAX_SAFE_INTEGER then Inl Unmodelled
        else Inr (digits_val ds, rest))"

definition lex_number :: "string \<Rightarrow> fault + int \<times> string" where
  "lex_number s =
    (if s \<noteq> [] \<and> hd s = CHR ''-''
     then (case lex_int (tl s) of Inl e \<Rightarrow> Inl e | Inr (n, rest) \<Rightarrow> Inr (- int n, rest))
     else (case lex_int s of Inl e \<Rightarrow> Inl e | Inr (n, rest) \<Rightarrow> Inr (int n, rest)))"

lemma dropWhile_shorter: "takeWhile P xs \<noteq> [] \<Longrightarrow> length (dropWhile P xs) < length xs"
  by (cases xs) (auto split: if_splits intro: le_imp_less_Suc length_dropWhile_le)

lemma lex_int_shorter: "lex_int cs = Inr (n, r) \<Longrightarrow> length r < length cs"
  using dropWhile_shorter[of is_digit cs]
  by (auto simp: lex_int_def Let_def split: if_splits)

lemma lex_number_shorter: "lex_number cs = Inr (n, r) \<Longrightarrow> length r < length cs"
  by (cases cs) (auto simp: lex_number_def split: if_splits sum.splits dest!: lex_int_shorter)

fun strip_prefix :: "string \<Rightarrow> string \<Rightarrow> string option" where
  "strip_prefix [] ys = Some ys"
| "strip_prefix (x # xs) [] = None"
| "strip_prefix (x # xs) (y # ys) = (if x = y then strip_prefix xs ys else None)"

definition lex_keyword :: "string \<Rightarrow> (token \<times> string) option" where
  "lex_keyword s =
    (case strip_prefix ''true'' s of
       Some r \<Rightarrow> Some (TTrue, r)
     | None \<Rightarrow>
    (case strip_prefix ''false'' s of
       Some r \<Rightarrow> Some (TFalse, r)
     | None \<Rightarrow>
    (case strip_prefix ''null'' s of
       Some r \<Rightarrow> Some (TNull, r)
     | None \<Rightarrow> None)))"

definition punctuator :: "char \<Rightarrow> token option" where
  "punctuator c =
    (if c = CHR ''{'' then Some TLBrace
     else if c = CHR ''}'' then Some TRBrace
     else if c = CHR ''['' then Some TLBracket
     else if c = CHR '']'' then Some TRBracket
     else if c = CHR '':'' then Some TColon
     else if c = CHR '','' then Some TComma
     else None)"

text \<open>One token that starts with the character \<open>c\<close>, and the text after it.\<close>

definition lex_atom :: "char \<Rightarrow> string \<Rightarrow> fault + token \<times> string" where
  "lex_atom c cs =
    (case punctuator c of
       Some t \<Rightarrow> Inr (t, cs)
     | None \<Rightarrow>
         if c = CHR 0x22 then
           (case lex_string cs of Inl e \<Rightarrow> Inl e | Inr (s, r) \<Rightarrow> Inr (TStr s, r))
         else if c = CHR ''-'' \<or> is_digit c then
           (case lex_number (c # cs) of Inl e \<Rightarrow> Inl e | Inr (n, r) \<Rightarrow> Inr (TNum n, r))
         else
           (case lex_keyword (c # cs) of None \<Rightarrow> Inl SyntaxError | Some tr \<Rightarrow> Inr tr))"

lemma strip_prefix_append: "strip_prefix p s = Some r \<Longrightarrow> s = p @ r"
  by (induction p s rule: strip_prefix.induct) (auto split: if_splits)

lemma lex_keyword_shorter: "lex_keyword s = Some (t, r) \<Longrightarrow> length r < length s"
  unfolding lex_keyword_def
  by (auto split: option.splits dest!: strip_prefix_append)

lemma lex_atom_shorter:
  assumes "lex_atom c cs = Inr (t, r)"
  shows "length r \<le> length cs"
proof (cases "punctuator c")
  case (Some t')
  with assms show ?thesis by (simp add: lex_atom_def)
next
  case None
  show ?thesis
  proof (cases "c = CHR 0x22")
    case True
    with None assms obtain s where "lex_string cs = Inr (s, r)"
      by (auto simp: lex_atom_def split: sum.splits)
    then show ?thesis using lex_string_shorter by fastforce
  next
    case False
    show ?thesis
    proof (cases "c = CHR ''-'' \<or> is_digit c")
      case True
      with None \<open>c \<noteq> CHR 0x22\<close> assms obtain n where "lex_number (c # cs) = Inr (n, r)"
        by (auto simp: lex_atom_def split: sum.splits)
      then show ?thesis using lex_number_shorter by fastforce
    next
      case nonum: False
      with None \<open>c \<noteq> CHR 0x22\<close> assms have "lex_keyword (c # cs) = Some (t, r)"
        by (auto simp: lex_atom_def split: option.splits)
      then show ?thesis using lex_keyword_shorter by fastforce
    qed
  qed
qed

definition cons_tok :: "token \<Rightarrow> fault + token list \<Rightarrow> fault + token list" where
  "cons_tok t r = (case r of Inl e \<Rightarrow> Inl e | Inr ts \<Rightarrow> Inr (t # ts))"

function lex :: "string \<Rightarrow> fault + token list" where
  "lex [] = Inr []"
| "lex (c # cs) =
    (if is_ws c then lex cs
     else (case lex_atom c cs of
             Inl e \<Rightarrow> Inl e
           | Inr (t, r) \<Rightarrow> cons_tok t (lex r)))"
  by pat_completeness auto
termination
proof (relation "measure length")
  show "wf (measure length)" by simp
next
  fix c :: char and cs :: string
  show "(cs, c # cs) \<in> measure length" by simp
next
  fix c :: char and cs :: string and x t r
  assume "lex_atom c cs = Inr x" "(t, r) = x"
  then have "length r \<le> length cs" using lex_atom_shorter[of c cs t r] by simp
  then show "(r, c # cs) \<in> measure length" by simp
qed

text \<open>
  The parser's stack: an array under construction with the elements read so far, or an
  object under construction with the members read so far and the key whose value is being
  read.
\<close>

datatype frame = FArr "jsval list" | FObj "(string \<times> jsval) list" string

datatype pstate =
    PValue "frame list"
  | PArrFirst "frame list"
  | PArrNext "jsval list" "frame list"
  | PObjFirst "frame list"
  | PObjKey "(string \<times> jsval) list" "frame list"
  | PColon "(string \<times> jsval) list" string "frame list"
  | PObjNext "(string \<times> jsval) list" "frame list"
  | PEnd jsval

text \<open>A member whose key the object already has replaces the earlier value in place;
  a new key is appended.\<close>

fun CreateDataProperty ::
  "(string \<times> jsval) list \<Rightarrow> string \<Rightarrow> jsval \<Rightarrow> (string \<times> jsval) list" where
  "CreateDataProperty [] k v = [(k, v)]"
| "CreateDataProperty (p # ps) k v =
     (if fst p = k then (k, v) # ps else p # CreateDataProperty ps k v)"

fun push_value :: "jsval \<Rightarrow> frame list \<Rightarrow> pstate" where
  "push_value v [] = PEnd v"
| "push_value v (FArr es # st) = PArrNext (es @ [v]) st"
| "push_value v (FObj ms k # st) = PObjNext (CreateDataProperty ms k v) st"

fun value_token :: "frame list \<Rightarrow> token \<Rightarrow> fault + pstate" where
  "value_token st (TStr s) = Inr (push_value (Str s) st)"
| "value_token st (TNum n) = Inr (push_value (Num n) st)"
| "value_token st TTrue = Inr (push_value (Bool True) st)"
| "value_token st TFalse = Inr (push_value (Bool False) st)"
| "value_token st TNull = Inr (push_value Null st)"
| "value_token st TLBracket = Inr (PArrFirst st)"
| "value_token st TLBrace = Inr (PObjFirst st)"
| "value_token st _ = Inl SyntaxError"

fun pstep :: "pstate \<Rightarrow> token \<Rightarrow> fault + pstate" where
  "pstep (PValue st) t = value_token st t"
| "pstep (PArrFirst st) t =
     (if t = TRBracket then Inr (push_value (Arr []) st) else value_token (FArr [] # st) t)"
| "pstep (PArrNext es st) t =
     (if t = TComma then Inr (PValue (FArr es # st))
      else if t = TRBracket then Inr (push_value (Arr es) st)
      else Inl SyntaxError)"
| "pstep (PObjFirst st) t =
     (case t of
        TRBrace \<Rightarrow> Inr (push_value (Obj []) st)
      | TStr k \<Rightarrow> Inr (PColon [] k st)
      | _ \<Rightarrow> Inl SyntaxError)"
| "pstep (PObjKey ms st) t =
     (case t of TStr k \<Rightarrow> Inr (PColon ms k st) | _ \<Rightarrow> Inl SyntaxError)"
| "pstep (PColon ms k st) t =
     (if t = TColon then Inr (PValue (FObj ms k # st)) else Inl SyntaxError)"
| "pstep (PObjNext ms st) t =
     (if t = TComma then Inr (PObjKey ms st)
      else if t = TRBrace then Inr (push_value (Obj ms) st)
      else Inl SyntaxError)"
| "pstep (PEnd v) t = Inl SyntaxError"

fun parse_tokens :: "pstate \<Rightarrow> token list \<Rightarrow> fault + jsval" where
  "parse_tokens ps [] = (case ps of PEnd v \<Rightarrow> Inr v | _ \<Rightarrow> Inl SyntaxError)"
| "parse_tokens ps (t # ts) =
     (case pstep ps t of Inl e \<Rightarrow> Inl e | Inr ps' \<Rightarrow> parse_tokens ps' ts)"

definition parse_text :: "string \<Rightarrow> fault + jsval" where
  "parse_text text =
     (case lex text of Inl e \<Rightarrow> Inl e | Inr ts \<Rightarrow> parse_tokens (PValue []) ts)"

text \<open>\<^verbatim>\<open>JSON.parse\<close> converts its argument to a string first, so \<^verbatim>\<open>JSON.parse(null)\<close>
  is \<^verbatim>\<open>null\<close>.\<close>

definition JSON_parse :: "jsval \<Rightarrow> fault + jsval" where
  "JSON_parse v = (case ToString v of Inl e \<Rightarrow> Inl e | Inr text \<Rightarrow> parse_text text)"

section \<open>The host: files, alerts, requests\<close>

text \<open>
  The script runs inside the Scriptable application, whose objects \<^verbatim>\<open>FileManager\<close>,
  \<^verbatim>\<open>Alert\<close>, \<^verbatim>\<open>Request\<close> and \<^verbatim>\<open>console\<close> are not part of the repository. They
  are modelled after the host's documentation:

  \<^item> \<^verbatim>\<open>joinPath(a, b)\<close> puts one separator between a directory path and a file name;
  \<^item> \<^verbatim>\<open>fileExists(p)\<close> holds of files and of directories;
  \<^item> \<^verbatim>\<open>readString(p)\<close> is the file's text, or \<^verbatim>\<open>null\<close> when there is no readable
    file at \<open>p\<close>;
  \<^item> \<^verbatim>\<open>writeString(p, s)\<close> creates or overwrites the file; its parameters are declared
    as strings and the bridge rejects, with an exception, an argument of another type
    (\<open>HostTypeError\<close>);
  \<^item> \<^verbatim>\<open>createDirectory(p)\<close> makes \<open>p\<close> a directory. The script calls it without
    the flag for intermediate directories; the call is taken to succeed whether or not
    the parent directory exists.

  Faults of the storage itself (no iCloud account, a full disk, a file that is not yet
  downloaded, a write below a path that is not a directory) are not modelled. The state of the host also carries \<open>log\<close>, a record of what
  the script has asked of the outside world so far, in order; it is how the theorems below
  speak about what a run did and did not do.
\<close>

record request =
  url :: string
  http_method :: string
  headers :: "(string \<times> string) list"
  body :: "string option"

datatype event =
    Invoke string
  | PresentAlert
  | Load request
  | LoadJSON request
  | ConsoleError

record host =
  documents :: string
  files :: "string \<rightharpoonup> string"
  dirs :: "string set"
  log :: "event list"

definition documentsDirectory :: "host \<Rightarrow> string" where
  "documentsDirectory h = documents h"

definition joinPath :: "string \<Rightarrow> string \<Rightarrow> string" where
  "joinPath a b = a @ ''/'' @ b"

definition fileExists :: "host \<Rightarrow> string \<Rightarrow> bool" where
  "fileExists h p = (files h p \<noteq> None \<or> p \<in> dirs h)"

definition readString :: "host \<Rightarrow> string \<Rightarrow> jsval" where
  "readString h p = (case files h p of None \<Rightarrow> Null | Some s \<Rightarrow> Str s)"

definition createDirectory :: "host \<Rightarrow> string \<Rightarrow> host" where
  "createDirectory h p = h\<lparr>dirs := insert p (dirs h)\<rparr>"

definition writeString :: "host \<Rightarrow> string \<Rightarrow> string \<Rightarrow> host" where
  "writeString h p s = h\<lparr>files := (files h)(p \<mapsto> s)\<rparr>"

text \<open>
  What the outside world answers during one run: the operator's answer to the alert, the
  clock, and the outcome of each request the script can make. \<^verbatim>\<open>fetchData\<close> sends its
  request twice (\<^verbatim>\<open>load\<close>, then \<^verbatim>\<open>loadJSON\<close>), so the usage endpoint has two outcomes.
\<close>

record response =
  response_statusCode :: int
  response_cookies :: jsval

record env =
  alert_response :: int
  text_field_0 :: string
  text_field_1 :: string
  now_iso :: string
  login_load :: "fault + response"
  overview_loadJSON :: "fault + jsval"
  usage_load :: "fault + int"
  usage_loadJSON :: "fault + jsval"

subsection \<open>Computations: a state and an exception\<close>

type_synonym 'a prog = "host \<Rightarrow> (fault + 'a) \<times> host"

definition return :: "'a \<Rightarrow> 'a prog" where
  "return x = (\<lambda>h. (Inr x, h))"

definition throw :: "fault \<Rightarrow> 'a prog" where
  "throw e = (\<lambda>h. (Inl e, h))"

definition bind :: "'a prog \<Rightarrow> ('a \<Rightarrow> 'b prog) \<Rightarrow> 'b prog" where
  "bind m f = (\<lambda>h. case m h of (Inl e, h') \<Rightarrow> (Inl e, h') | (Inr x, h') \<Rightarrow> f x h')"

definition try_catch :: "'a prog \<Rightarrow> (fault \<Rightarrow> 'a prog) \<Rightarrow> 'a prog" where
  "try_catch m handler =
     (\<lambda>h. case m h of (Inl e, h') \<Rightarrow> handler e h' | (Inr x, h') \<Rightarrow> (Inr x, h'))"

definition lift :: "fault + 'a \<Rightarrow> 'a prog" where
  "lift r = (\<lambda>h. (r, h))"

definition emit :: "event \<Rightarrow> unit prog" where
  "emit ev = (\<lambda>h. (Inr (), h\<lparr>log := log h @ [ev]\<rparr>))"

section \<open>The script\<close>

subsection \<open>getCachedData and cacheData\<close>

definition getCachedData :: "string \<Rightarrow> jsval prog" where
  "getCachedData fileName = (\<lambda>h.
     let cacheDirectory = joinPath (documentsDirectory h) ''bluewalk/mijnsimpel'';
         cacheFile = joinPath cacheDirectory fileName
     in if \<not> fileExists h cacheFile then (Inr Undefined, h)
        else let contents = readString h cacheFile
             in (JSON_parse contents, h))"

definition cacheData :: "string \<Rightarrow> jsval \<Rightarrow> unit prog" where
  "cacheData fileName data = (\<lambda>h.
     let cacheDirectory = joinPath (documentsDirectory h) ''bluewalk/mijnsimpel'';
         cacheFile = joinPath cacheDirectory fileName;
         h1 = (if \<not> fileExists h cacheDirectory then createDirectory h cacheDirectory else h)
     in case JSON_stringify data of
          None \<Rightarrow> (Inl HostTypeError, h1)
        | Some contents \<Rightarrow> (Inr (), writeString h1 cacheFile contents))"

subsection \<open>promptForCredentials\<close>

definition promptForCredentials :: "env \<Rightarrow> jsval prog" where
  "promptForCredentials env =
     bind (emit (Invoke ''promptForCredentials'')) (\<lambda>_.
     bind (emit PresentAlert) (\<lambda>_.
     if alert_response env = - 1 then throw (Error ''User cancelled the login prompt.'')
     else
       let username = Str (text_field_0 env);
           password = Str (text_field_1 env)
       in return (Obj [(''username'', username), (''password'', password)])))"

subsection \<open>fetchToken\<close>

definition fetchToken :: "env \<Rightarrow> jsval \<Rightarrow> unit prog" where
  "fetchToken env credentials =
     bind (emit (Invoke ''fetchToken'')) (\<lambda>_.
     bind (lift (get_prop credentials ''username'')) (\<lambda>username.
     bind (lift (get_prop credentials ''password'')) (\<lambda>password.
     let payload = Obj [(''username'', username), (''password'', password),
                        (''remember'', Bool True), (''datetime'', Str (now_iso env))];
         req = \<lparr>url = ''https://api.simpel.nl/login'', http_method = ''POST'',
                headers = [(''Content-Type'', ''application/json'')],
                body = JSON_stringify payload\<rparr>
     in
     bind (emit (Load req)) (\<lambda>_.
     bind (lift (login_load env)) (\<lambda>response.
     if response_statusCode response \<noteq> 200
     then throw (Error (''Failed to fetch token: '' @
                        Number_toString (response_statusCode response)))
     else cacheData ''cookies.json'' (response_cookies response))))))"

subsection \<open>The Cookie header\<close>

text \<open>
  \<^verbatim>\<open>cookies.map(cookie => `${cookie.name}=${cookie.value}`).join("; ")\<close>, which
  \<^verbatim>\<open>fetchSid\<close> and \<^verbatim>\<open>fetchData\<close> both evaluate. Only an array has a method
  \<^verbatim>\<open>map\<close>: on any other value of the embedding the call raises a \<^verbatim>\<open>TypeError\<close>.
\<close>

definition cookie_pair :: "jsval \<Rightarrow> fault + string" where
  "cookie_pair cookie =
     (case get_prop cookie ''name'' of Inl e \<Rightarrow> Inl e | Inr n \<Rightarrow>
     (case ToString n of Inl e \<Rightarrow> Inl e | Inr ns \<Rightarrow>
     (case get_prop cookie ''value'' of Inl e \<Rightarrow> Inl e | Inr v \<Rightarrow>
     (case ToString v of Inl e \<Rightarrow> Inl e | Inr vs \<Rightarrow>
      Inr (ns @ ''='' @ vs)))))"

fun cookie_pairs :: "jsval list \<Rightarrow> fault + string list" where
  "cookie_pairs [] = Inr []"
| "cookie_pairs (c # cs) =
     (case cookie_pair c of Inl e \<Rightarrow> Inl e | Inr s \<Rightarrow>
     (case cookie_pairs cs of Inl e \<Rightarrow> Inl e | Inr ss \<Rightarrow> Inr (s # ss)))"

definition cookie_header :: "jsval \<Rightarrow> fault + string" where
  "cookie_header cookies =
     (case cookies of
        Arr cs \<Rightarrow> (case cookie_pairs cs of Inl e \<Rightarrow> Inl e | Inr ss \<Rightarrow> Inr (join ''; '' ss))
      | _ \<Rightarrow> Inl TypeError)"

subsection \<open>fetchSid\<close>

definition fetchSid :: "env \<Rightarrow> jsval \<Rightarrow> unit prog" where
  "fetchSid env cookies =
     bind (emit (Invoke ''fetchSid'')) (\<lambda>_.
     bind (lift (cookie_header cookies)) (\<lambda>cookie.
     let req = \<lparr>url = ''https://api.simpel.nl/account/subscription-overview'',
                http_method = ''GET'', headers = [(''Cookie'', cookie)], body = None\<rparr>
     in
     bind (emit (LoadJSON req)) (\<lambda>_.
     bind (lift (overview_loadJSON env)) (\<lambda>json.
     bind (lift (get_prop json ''mainSubscription'')) (\<lambda>mainSubscription.
     bind (lift (get_prop mainSubscription ''subscriptionId'')) (\<lambda>subscriptionId.
     cacheData ''sid.json'' subscriptionId))))))"

subsection \<open>fetchData\<close>

text \<open>
  The whole body stands in \<^verbatim>\<open>try\<close>, so also a fault while the URL or the Cookie header
  is built ends in the handler. On status 200 the script sends the request a second time
  (\<^verbatim>\<open>loadJSON\<close> after \<^verbatim>\<open>load\<close>) and returns the parsed body; the assignment to the
  undeclared name \<^verbatim>\<open>json\<close> in that \<^verbatim>\<open>return\<close> sets a global that nothing reads (the
  script does not run in strict mode) and is left out.
\<close>

definition fetchData :: "env \<Rightarrow> jsval \<Rightarrow> jsval \<Rightarrow> jsval prog" where
  "fetchData env sid cookies =
     bind (emit (Invoke ''fetchData'')) (\<lambda>_.
     try_catch
       (bind (lift (ToString sid)) (\<lambda>sid_text.
        bind (lift (cookie_header cookies)) (\<lambda>cookie.
        let req = \<lparr>url = ''https://mijn.simpel.nl/api/usage/usage-summary?sid='' @ sid_text,
                   http_method = ''GET'', headers = [(''Cookie'', cookie)], body = None\<rparr>
        in
        bind (emit (Load req)) (\<lambda>_.
        bind (lift (usage_load env)) (\<lambda>status.
        if status = 200
        then bind (emit (LoadJSON req)) (\<lambda>_. lift (usage_loadJSON env))
        else bind (emit ConsoleError) (\<lambda>_. return (Obj [(''errorCode'', Num status)])))))))
       (\<lambda>error. bind (emit ConsoleError) (\<lambda>_. return (Obj [(''errorCode'', Num (- 1))]))))"

subsection \<open>run\<close>

text \<open>
  The main function up to the point where the usage data, or the error payload, is handed
  to the code that draws the widget. The result of \<open>run\<close> is that value; the drawing itself
  is not modelled.
\<close>

definition run :: "env \<Rightarrow> jsval prog" where
  "run env =
     bind (getCachedData ''credentials.json'') (\<lambda>cached_credentials.
     bind (if cached_credentials = Undefined
           then bind (promptForCredentials env) (\<lambda>credentials.
                bind (cacheData ''credentials.json'' credentials) (\<lambda>_.
                return credentials))
           else return cached_credentials) (\<lambda>credentials.
     bind (getCachedData ''cookies.json'') (\<lambda>cached_cookies.
     bind (if cached_cookies = Undefined
           then bind (fetchToken env credentials) (\<lambda>_. getCachedData ''cookies.json'')
           else return cached_cookies) (\<lambda>cookies.
     bind (getCachedData ''sid.json'') (\<lambda>cached_sid.
     bind (if cached_sid = Undefined
           then bind (fetchSid env cookies) (\<lambda>_. getCachedData ''sid.json'')
           else return cached_sid) (\<lambda>sid.
     fetchData env sid cookies))))))"

section \<open>Scenarios\<close>

text \<open>The path under which \<^verbatim>\<open>getCachedData\<close> and \<^verbatim>\<open>cacheData\<close> keep a name: both
  compute it anew at every call.\<close>

definition cache_path :: "host \<Rightarrow> string \<Rightarrow> string" where
  "cache_path h fileName =
     joinPath (joinPath (documentsDirectory h) ''bluewalk/mijnsimpel'') fileName"

text \<open>A history of cache writes, each carried out whether or not the one before it
  raised.\<close>

fun cache_all :: "(string \<times> jsval) list \<Rightarrow> host \<Rightarrow> host" where
  "cache_all [] h = h"
| "cache_all (w # ws) h = cache_all ws (snd (cacheData (fst w) (snd w) h))"

text \<open>A device on which the script has never run.\<close>

definition fresh_host :: host where
  "fresh_host = \<lparr>documents = ''/iCloud/Scriptable'', files = Map.empty, dirs = {}, log = []\<rparr>"

text \<open>What the outside world answers in the scenarios: the operator confirms the alert,
  the login succeeds, the overview names a subscription and the usage endpoint answers.\<close>

definition example_env :: env where
  "example_env =
     \<lparr>alert_response = 0,
      text_field_0 = ''alice'',
      text_field_1 = ''secret'',
      now_iso = ''2024-01-01T00:00:00.000Z'',
      login_load = Inr \<lparr>response_statusCode = 200,
                         response_cookies =
                           Arr [Obj [(''name'', Str ''sess''), (''value'', Str ''abc'')]]\<rparr>,
      overview_loadJSON =
        Inr (Obj [(''mainSubscription'', Obj [(''subscriptionId'', Str ''SUB123'')])]),
      usage_load = Inr 200,
      usage_loadJSON = Inr (Obj [(''sms'', Obj [(''type'', Str ''unlimited'')])])\<rparr>"

text \<open>The field the subscription resolver expects in the overview response: a
  main-subscription object with a subscription-id member.\<close>

definition subscription_id_field :: "jsval \<Rightarrow> jsval option" where
  "subscription_id_field json =
     (case json of
        Obj kvs \<Rightarrow>
          (case map_of kvs ''mainSubscription'' of
             Some (Obj ms) \<Rightarrow> map_of ms ''subscriptionId''
           | _ \<Rightarrow> None)
      | _ \<Rightarrow> None)"

text \<open>The Cookie header as the specification words it: the pairs \<^verbatim>\<open>name=value\<close> in the
  order of the sequence, a semicolon and a space between two neighbours.\<close>

fun spec_cookie_header :: "(string \<times> string) list \<Rightarrow> string" where
  "spec_cookie_header [] = []"
| "spec_cookie_header [c] = fst c @ ''='' @ snd c"
| "spec_cookie_header (c # d # cs) =
     fst c @ ''='' @ snd c @ ''; '' @ spec_cookie_header (d # cs)"

text \<open>A cookie of the session: a value whose \<^verbatim>\<open>name\<close> and \<^verbatim>\<open>value\<close> are the given
  strings, whatever else it carries.\<close>

definition is_cookie :: "jsval \<Rightarrow> string \<times> string \<Rightarrow> bool" where
  "is_cookie c nv =
     (get_prop c ''name'' = Inr (Str (fst nv)) \<and> get_prop c ''value'' = Inr (Str (snd nv)))"

text \<open>A device on which an earlier run has cached the session cookies.\<close>

definition cached_host :: host where
  "cached_host =
     cache_all [(''cookies.json'', Arr [Obj [(''name'', Str ''sess''), (''value'', Str ''abc'')]])]
       fresh_host"

section \<open>Vocabulary of the proofs\<close>

subsection \<open>Values that JSON text can carry\<close>

text \<open>
  The values of the embedding that JSON text carries unchanged: no \<^verbatim>\<open>undefined\<close>
  anywhere, every number a safe integer, every object with each key once. JavaScript has
  more values that JSON text carries: the embedding has no doubles other than the safe
  integers and no code units above \<open>0xFF\<close>.
\<close>

fun embedded_json :: "jsval \<Rightarrow> bool" where
  "embedded_json Undefined = False"
| "embedded_json Null = True"
| "embedded_json (Bool b) = True"
| "embedded_json (Num n) = (\<bar>n\<bar> \<le> MAX_SAFE_INTEGER)"
| "embedded_json (Str s) = True"
| "embedded_json (Arr xs) = (\<forall>x \<in> set xs. embedded_json x)"
| "embedded_json (Obj kvs) = (distinct (map fst kvs) \<and> (\<forall>kv \<in> set kvs. embedded_json (snd kv)))"

text \<open>The text that \<^verbatim>\<open>JSON.stringify\<close> writes for a value, and the tokens of that text.\<close>

definition text_of :: "jsval \<Rightarrow> string" where
  "text_of v = the (SerializeJSONProperty v)"

fun tjoin :: "token list list \<Rightarrow> token list" where
  "tjoin [] = []"
| "tjoin [x] = x"
| "tjoin (x # y # ys) = x @ TComma # tjoin (y # ys)"

fun tokens_of :: "jsval \<Rightarrow> token list" where
  "tokens_of Undefined = []"
| "tokens_of Null = [TNull]"
| "tokens_of (Bool b) = [if b then TTrue else TFalse]"
| "tokens_of (Num n) = [TNum n]"
| "tokens_of (Str s) = [TStr s]"
| "tokens_of (Arr xs) = TLBracket # tjoin (map tokens_of xs) @ [TRBracket]"
| "tokens_of (Obj kvs) =
     TLBrace # tjoin (map (\<lambda>kv. TStr (fst kv) # TColon # tokens_of (snd kv)) kvs) @ [TRBrace]"

definition app_toks :: "token list \<Rightarrow> fault + token list \<Rightarrow> fault + token list" where
  "app_toks ts r = (case r of Inl e \<Rightarrow> Inl e | Inr ts' \<Rightarrow> Inr (ts @ ts'))"

text \<open>What may follow a number literal for the literal to end there.\<close>

definition number_end :: "string \<Rightarrow> bool" where
  "number_end rest =
     (rest = [] \<or> (\<not> is_digit (hd rest) \<and> hd rest \<notin> {CHR ''.'', CHR ''e'', CHR ''E''}))"

subsection \<open>The stages of a run\<close>

text \<open>The three cache-or-fetch stages of \<open>run\<close>, named so that lemmas can speak of
  each; \<open>run_stages\<close> below shows that \<open>run\<close> is their sequence.\<close>

definition credentials_stage :: "env \<Rightarrow> jsval prog" where
  "credentials_stage env =
     bind (getCachedData ''credentials.json'') (\<lambda>cached_credentials.
       if cached_credentials = Undefined
       then bind (promptForCredentials env) (\<lambda>credentials.
            bind (cacheData ''credentials.json'' credentials) (\<lambda>_.
            return credentials))
       else return cached_credentials)"

definition subscription_stage :: "env \<Rightarrow> jsval \<Rightarrow> jsval prog" where
  "subscription_stage env cookies =
     bind (getCachedData ''sid.json'') (\<lambda>cached_sid.
     bind (if cached_sid = Undefined
           then bind (fetchSid env cookies) (\<lambda>_. getCachedData ''sid.json'')
           else return cached_sid) (\<lambda>sid.
     fetchData env sid cookies))"

definition session_stage :: "env \<Rightarrow> jsval \<Rightarrow> jsval prog" where
  "session_stage env credentials =
     bind (getCachedData ''cookies.json'') (\<lambda>cached_cookies.
     bind (if cached_cookies = Undefined
           then bind (fetchToken env credentials) (\<lambda>_. getCachedData ''cookies.json'')
           else return cached_cookies) (subscription_stage env))"

text \<open>An event that is neither a call of \<^verbatim>\<open>fetchToken\<close> nor a request to the login
  endpoint; a computation that adds only such events to the log; a computation that keeps
  whatever exists under \<^verbatim>\<open>cookies.json\<close>.\<close>

definition no_login :: "event \<Rightarrow> bool" where
  "no_login ev =
     (ev \<noteq> Invoke ''fetchToken''
      \<and> (\<forall>req. ev = Load req \<longrightarrow> url req \<noteq> ''https://api.simpel.nl/login''))"

definition quiet :: "'a prog \<Rightarrow> bool" where
  "quiet p = (\<forall>h. \<exists>evs. log (snd (p h)) = log h @ evs \<and> list_all no_login evs)"

definition keeps_cookies :: "'a prog \<Rightarrow> bool" where
  "keeps_cookies p =
     (\<forall>h. fileExists h (cache_path h ''cookies.json'') \<longrightarrow>
          fileExists (snd (p h)) (cache_path (snd (p h)) ''cookies.json''))"

text \<open>A host with nothing under \<^verbatim>\<open>sid.json\<close>; a computation that keeps such a host so
  and calls neither \<^verbatim>\<open>fetchSid\<close> nor \<^verbatim>\<open>fetchData\<close>; a computation that on such a
  host ends with a fault before \<^verbatim>\<open>fetchData\<close> is called, the fault being one of a failed
  subscription lookup whenever \<^verbatim>\<open>fetchSid\<close> was called.\<close>

definition sid_absent :: "host \<Rightarrow> bool" where
  "sid_absent h = (\<not> fileExists h (cache_path h ''sid.json''))"

definition setup_step :: "'a prog \<Rightarrow> bool" where
  "setup_step p =
     (\<forall>h. sid_absent h \<longrightarrow>
          sid_absent (snd (p h))
          \<and> (\<exists>evs. log (snd (p h)) = log h @ evs
                 \<and> Invoke ''fetchSid'' \<notin> set evs \<and> Invoke ''fetchData'' \<notin> set evs))"

definition aborts :: "'a prog \<Rightarrow> bool" where
  "aborts p =
     (\<forall>h. sid_absent h \<longrightarrow>
          sid_absent (snd (p h))
          \<and> (\<exists>e evs. fst (p h) = Inl e \<and> log (snd (p h)) = log h @ evs
                 \<and> Invoke ''fetchData'' \<notin> set evs
                 \<and> (Invoke ''fetchSid'' \<in> set evs \<longrightarrow> e \<in> {TypeError, HostTypeError})))"

text \<open>A parser state that cannot end in \<^verbatim>\<open>undefined\<close>.\<close>

fun defined_state :: "pstate \<Rightarrow> bool" where
  "defined_state (PEnd v) = (v \<noteq> Undefined)"
| "defined_state _ = True"

section \<open>The cache store\<close>

lemmas prog_defs = bind_def return_def throw_def lift_def emit_def try_catch_def

lemma cache_path_inj: "cache_path h n = cache_path h m \<longleftrightarrow> n = m"
  by (simp add: cache_path_def joinPath_def)

lemma cache_path_not_dir:
  "cache_path h n \<noteq> joinPath (documentsDirectory h) ''bluewalk/mijnsimpel''"
  by (simp add: cache_path_def joinPath_def)

lemma getCachedData_alt:
  "getCachedData n h =
     (if \<not> fileExists h (cache_path h n) then (Inr Undefined, h)
      else (JSON_parse (readString h (cache_path h n)), h))"
  by (simp add: getCachedData_def cache_path_def Let_def)

lemma getCachedData_state: "snd (getCachedData n h) = h"
  by (simp add: getCachedData_alt)

lemma getCachedData_absent:
  "\<not> fileExists h (cache_path h n) \<Longrightarrow> getCachedData n h = (Inr Undefined, h)"
  by (simp add: getCachedData_alt)

lemma cacheData_documents: "documents (snd (cacheData n v h)) = documents h"
  by (simp add: cacheData_def Let_def createDirectory_def writeString_def split: option.splits)

lemma cacheData_log: "log (snd (cacheData n v h)) = log h"
  by (simp add: cacheData_def Let_def createDirectory_def writeString_def split: option.splits)

lemma cacheData_cache_path: "cache_path (snd (cacheData n v h)) m = cache_path h m"
  by (simp add: cache_path_def documentsDirectory_def cacheData_documents)

lemma cacheData_files_other:
  "n \<noteq> m \<Longrightarrow> files (snd (cacheData n v h)) (cache_path h m) = files h (cache_path h m)"
  using cache_path_inj[of h n m]
  by (simp add: cacheData_def Let_def createDirectory_def writeString_def cache_path_def
      split: option.splits)

lemma cacheData_dirs_other:
  "cache_path h m \<in> dirs (snd (cacheData n v h)) \<longleftrightarrow> cache_path h m \<in> dirs h"
  using cache_path_not_dir[of h m]
  by (auto simp: cacheData_def Let_def createDirectory_def writeString_def
      split: option.splits)

lemma cacheData_fileExists_other:
  "n \<noteq> m \<Longrightarrow>
     fileExists (snd (cacheData n v h)) (cache_path h m) = fileExists h (cache_path h m)"
  by (simp add: fileExists_def cacheData_files_other cacheData_dirs_other)

lemma cacheData_readString_other:
  "n \<noteq> m \<Longrightarrow>
     readString (snd (cacheData n v h)) (cache_path h m) = readString h (cache_path h m)"
  by (simp add: readString_def cacheData_files_other)

lemma cache_all_fileExists:
  "n \<notin> fst ` set ws \<Longrightarrow>
     fileExists (cache_all ws h) (cache_path (cache_all ws h) n) = fileExists h (cache_path h n)"
proof (induction ws arbitrary: h)
  case Nil
  then show ?case by simp
next
  case (Cons w ws)
  then have "fst w \<noteq> n" and rest: "n \<notin> fst ` set ws" by auto
  have "fileExists (cache_all (w # ws) h) (cache_path (cache_all (w # ws) h) n)
      = fileExists (snd (cacheData (fst w) (snd w) h))
          (cache_path (snd (cacheData (fst w) (snd w) h)) n)"
    using Cons.IH[OF rest] by simp
  also have "\<dots> = fileExists h (cache_path h n)"
    using \<open>fst w \<noteq> n\<close> by (simp add: cacheData_cache_path cacheData_fileExists_other)
  finally show ?case .
qed

text \<open>
  Claim C9. A name that has never been written reads as the absent marker, and the read
  raises nothing: when nothing exists at the name's path on the host \<open>h\<close>, then after any
  history \<open>ws\<close> of cache writes to other names, \<^verbatim>\<open>getCachedData\<close> of the name returns
  \<^verbatim>\<open>undefined\<close> as a value and leaves the host as it was.
\<close>

theorem getCachedData_never_written:
  "\<not> fileExists h (cache_path h n) \<Longrightarrow> n \<notin> fst ` set ws \<Longrightarrow>
     getCachedData n (cache_all ws h) = (Inr Undefined, cache_all ws h)"
  by (rule getCachedData_absent) (simp add: cache_all_fileExists)

theorem getCachedData_never_written_witness:
  "\<not> fileExists fresh_host (cache_path fresh_host ''sid.json'')
   \<and> ''sid.json'' \<notin> fst ` set [(''credentials.json'', Obj [(''username'', Str ''u'')]),
                                  (''cookies.json'', Arr [])]
   \<and> getCachedData ''sid.json''
        (cache_all [(''credentials.json'', Obj [(''username'', Str ''u'')]),
                    (''cookies.json'', Arr [])] fresh_host)
      = (Inr Undefined,
         cache_all [(''credentials.json'', Obj [(''username'', Str ''u'')]),
                    (''cookies.json'', Arr [])] fresh_host)"
proof -
  have a: "\<not> fileExists fresh_host (cache_path fresh_host ''sid.json'')"
    by (simp add: fileExists_def fresh_host_def)
  have b: "''sid.json'' \<notin> fst ` set [(''credentials.json'', Obj [(''username'', Str ''u'')]),
                                      (''cookies.json'', Arr [])]"
    by simp
  from a b getCachedData_never_written[OF a b] show ?thesis by blast
qed

text \<open>
  Claim C10. Writing the name \<open>n\<close> does not change what a later read of another name \<open>m\<close>
  returns, and a read changes nothing on the host: so the cache write of one pipeline
  stage cannot clobber the artifact of another.
\<close>

theorem cacheData_frame:
  "n \<noteq> m \<Longrightarrow>
     fst (getCachedData m (snd (cacheData n v h))) = fst (getCachedData m h)
     \<and> snd (getCachedData m h) = h"
  by (simp add: getCachedData_alt cacheData_cache_path cacheData_fileExists_other
      cacheData_readString_other)

theorem cacheData_frame_witness:
  "''sid.json'' \<noteq> ''cookies.json''
   \<and> fst (getCachedData ''cookies.json'' cached_host)
       = Inr (Arr [Obj [(''name'', Str ''sess''), (''value'', Str ''abc'')]])
   \<and> fst (getCachedData ''cookies.json''
            (snd (cacheData ''sid.json'' (Str ''SUB123'') cached_host)))
       = Inr (Arr [Obj [(''name'', Str ''sess''), (''value'', Str ''abc'')]])
   \<and> fst (getCachedData ''sid.json'' (snd (cacheData ''sid.json'' (Str ''SUB123'') cached_host)))
       = Inr (Str ''SUB123'')
   \<and> snd (getCachedData ''cookies.json'' cached_host) = cached_host"
proof -
  have a: "''sid.json'' \<noteq> ''cookies.json''" by simp
  have before: "fst (getCachedData ''cookies.json'' cached_host)
       = Inr (Arr [Obj [(''name'', Str ''sess''), (''value'', Str ''abc'')]])"
    by code_simp
  have written: "fst (getCachedData ''sid.json''
                       (snd (cacheData ''sid.json'' (Str ''SUB123'') cached_host)))
       = Inr (Str ''SUB123'')"
    by code_simp
  from a before written cacheData_frame[OF a, of "Str ''SUB123''" cached_host]
  show ?thesis by simp
qed

section \<open>Faults of the pure operations\<close>

lemma ToString_fault:
  "ToString v = Inl e \<Longrightarrow> e = TypeError"
  "ToString_elems vs = Inl e \<Longrightarrow> e = TypeError"
  by (induction v and vs arbitrary: e and e rule: ToString_ToString_elems.induct)
     (auto split: sum.splits if_splits)

lemma get_prop_fault: "get_prop v k = Inl e \<Longrightarrow> e = TypeError"
  by (cases v) (auto split: option.splits)

lemma cookie_pair_fault: "cookie_pair c = Inl e \<Longrightarrow> e = TypeError"
  by (auto simp: cookie_pair_def split: sum.splits dest: get_prop_fault ToString_fault)

lemma cookie_pairs_fault: "cookie_pairs cs = Inl e \<Longrightarrow> e = TypeError"
  by (induction cs arbitrary: e) (auto split: sum.splits dest: cookie_pair_fault)

lemma cookie_header_fault: "cookie_header v = Inl e \<Longrightarrow> e = TypeError"
  by (cases v) (auto simp: cookie_header_def split: sum.splits dest: cookie_pairs_fault)

section \<open>The subscription resolver\<close>

lemma cacheData_undefined:
  "fst (cacheData n Undefined h) = Inl HostTypeError
   \<and> files (snd (cacheData n Undefined h)) = files h"
  by (simp add: cacheData_def JSON_stringify_def Let_def createDirectory_def)

lemma subscriptionId_read:
  assumes "subscription_id_field json = None"
  shows "(case get_prop json ''mainSubscription'' of
            Inl e \<Rightarrow> Inl e
          | Inr m \<Rightarrow> get_prop m ''subscriptionId'') \<in> {Inl TypeError, Inr Undefined}"
proof (cases json)
  case (Obj kvs)
  show ?thesis
  proof (cases "map_of kvs ''mainSubscription''")
    case None
    with Obj show ?thesis by simp
  next
    case (Some m)
    with Obj assms show ?thesis
      by (cases m) (simp_all add: subscription_id_field_def)
  qed
qed simp_all

section \<open>The session acquirer\<close>

text \<open>
  Claim C2. For credentials that are an object and a login request that is answered,
  \<^verbatim>\<open>fetchToken\<close> succeeds only when the status is 200; on any other status it throws the
  error whose message carries that status, and writes nothing: files and directories are
  as before, so no cookies are cached.
\<close>

theorem fetchToken_status:
  "login_load env = Inr response \<Longrightarrow> credentials \<noteq> Undefined \<Longrightarrow> credentials \<noteq> Null \<Longrightarrow>
     (fst (fetchToken env credentials h) = Inr () \<longrightarrow> response_statusCode response = 200)
     \<and> (response_statusCode response \<noteq> 200 \<longrightarrow>
          fst (fetchToken env credentials h) =
            Inl (Error (''Failed to fetch token: '' @
                        Number_toString (response_statusCode response)))
          \<and> files (snd (fetchToken env credentials h)) = files h
          \<and> dirs (snd (fetchToken env credentials h)) = dirs h)"
  by (cases credentials) (auto simp: fetchToken_def prog_defs Let_def split: option.splits)

theorem fetchToken_status_witness:
  "login_load (example_env\<lparr>login_load :=
       Inr \<lparr>response_statusCode = 401, response_cookies = Arr []\<rparr>\<rparr>)
     = Inr \<lparr>response_statusCode = 401, response_cookies = Arr []\<rparr>
   \<and> Obj [(''username'', Str ''alice''), (''password'', Str ''wrong'')] \<noteq> Undefined
   \<and> Obj [(''username'', Str ''alice''), (''password'', Str ''wrong'')] \<noteq> Null
   \<and> fst (fetchToken (example_env\<lparr>login_load :=
              Inr \<lparr>response_statusCode = 401, response_cookies = Arr []\<rparr>\<rparr>)
            (Obj [(''username'', Str ''alice''), (''password'', Str ''wrong'')]) fresh_host)
       = Inl (Error ''Failed to fetch token: 401'')
   \<and> files (snd (fetchToken (example_env\<lparr>login_load :=
              Inr \<lparr>response_statusCode = 401, response_cookies = Arr []\<rparr>\<rparr>)
            (Obj [(''username'', Str ''alice''), (''password'', Str ''wrong'')]) fresh_host))
       = files fresh_host"
proof -
  have a: "login_load (example_env\<lparr>login_load :=
       Inr \<lparr>response_statusCode = 401, response_cookies = Arr []\<rparr>\<rparr>)
     = Inr \<lparr>response_statusCode = 401, response_cookies = Arr []\<rparr>"
    by simp
  have b: "Obj [(''username'', Str ''alice''), (''password'', Str ''wrong'')] \<noteq> Undefined"
    by simp
  have c: "Obj [(''username'', Str ''alice''), (''password'', Str ''wrong'')] \<noteq> Null"
    by simp
  have d: "Number_toString 401 = ''401''"
    by code_simp
  from a fetchToken_status[OF a b c, of fresh_host] d show ?thesis by simp
qed

section \<open>The usage fetcher\<close>

text \<open>
  Claim C5. When the subscription id prints, the cookies serialise, and the usage endpoint
  answers with a status other than 200, \<^verbatim>\<open>fetchData\<close> returns the value
  \<^verbatim>\<open>{errorCode: status}\<close> with that status, and raises nothing.
\<close>

theorem fetchData_status:
  "ToString sid = Inr sid_text \<Longrightarrow> cookie_header cookies = Inr cookie \<Longrightarrow>
   usage_load env = Inr status \<Longrightarrow> status \<noteq> 200 \<Longrightarrow>
     fst (fetchData env sid cookies h) = Inr (Obj [(''errorCode'', Num status)])"
  by (simp add: fetchData_def prog_defs)

theorem fetchData_status_witness:
  "ToString (Str ''SUB123'') = Inr ''SUB123''
   \<and> cookie_header (Arr [Obj [(''name'', Str ''sess''), (''value'', Str ''abc'')]])
       = Inr ''sess=abc''
   \<and> usage_load (example_env\<lparr>usage_load := Inr 403\<rparr>) = Inr 403
   \<and> (403 :: int) \<noteq> 200
   \<and> fst (fetchData (example_env\<lparr>usage_load := Inr 403\<rparr>) (Str ''SUB123'')
            (Arr [Obj [(''name'', Str ''sess''), (''value'', Str ''abc'')]]) fresh_host)
       = Inr (Obj [(''errorCode'', Num 403)])"
proof -
  have a: "ToString (Str ''SUB123'') = Inr ''SUB123''" by simp
  have b: "cookie_header (Arr [Obj [(''name'', Str ''sess''), (''value'', Str ''abc'')]])
       = Inr ''sess=abc''"
    by (simp add: cookie_header_def cookie_pair_def)
  have c: "usage_load (example_env\<lparr>usage_load := Inr 403\<rparr>) = Inr 403" by simp
  have d: "(403 :: int) \<noteq> 200" by simp
  from a b c d fetchData_status[OF a b c d, of fresh_host] show ?thesis by blast
qed

text \<open>
  Claim C6. When the usage request raises, or the request is answered with status 200 and
  reading its body as JSON raises, \<^verbatim>\<open>fetchData\<close> returns the value
  \<^verbatim>\<open>{errorCode: -1}\<close> and raises nothing, whatever the subscription id and the cookies.
\<close>

theorem fetchData_exception:
  "usage_load env = Inl e \<or> (usage_load env = Inr 200 \<and> usage_loadJSON env = Inl e) \<Longrightarrow>
     fst (fetchData env sid cookies h) = Inr (Obj [(''errorCode'', Num (- 1))])"
  by (auto simp: fetchData_def prog_defs Let_def split: sum.splits)

theorem fetchData_exception_witness:
  "usage_load (example_env\<lparr>usage_load := Inl (Transport ''timed out'')\<rparr>)
     = Inl (Transport ''timed out'')
   \<and> fst (fetchData (example_env\<lparr>usage_load := Inl (Transport ''timed out'')\<rparr>)
            (Str ''SUB123'')
            (Arr [Obj [(''name'', Str ''sess''), (''value'', Str ''abc'')]]) fresh_host)
       = Inr (Obj [(''errorCode'', Num (- 1))])"
proof -
  have a: "usage_load (example_env\<lparr>usage_load := Inl (Transport ''timed out'')\<rparr>)
     = Inl (Transport ''timed out'')"
    by simp
  from a fetchData_exception[OF disjI1, OF a] show ?thesis by blast
qed

section \<open>The Cookie header\<close>

lemma cookie_pair_is_cookie:
  "is_cookie c nv \<Longrightarrow> cookie_pair c = Inr (fst nv @ ''='' @ snd nv)"
  by (simp add: is_cookie_def cookie_pair_def)

lemma cookie_pairs_is_cookie:
  "list_all2 is_cookie cs nvs \<Longrightarrow>
     cookie_pairs cs = Inr (map (\<lambda>nv. fst nv @ ''='' @ snd nv) nvs)"
  by (induction cs nvs rule: list_all2_induct) (simp_all add: cookie_pair_is_cookie)

lemma join_spec:
  "join ''; '' (map (\<lambda>nv. fst nv @ ''='' @ snd nv) nvs) = spec_cookie_header nvs"
  by (induction nvs rule: spec_cookie_header.induct) simp_all

lemma cookie_header_spec:
  assumes "list_all2 is_cookie cs nvs"
  shows "cookie_header (Arr cs) = Inr (spec_cookie_header nvs)"
proof -
  from assms have "cookie_pairs cs = Inr (map (\<lambda>nv. fst nv @ ''='' @ snd nv) nvs)"
    by (rule cookie_pairs_is_cookie)
  then have "cookie_header (Arr cs)
      = Inr (join ''; '' (map (\<lambda>nv. fst nv @ ''='' @ snd nv) nvs))"
    by (simp add: cookie_header_def)
  then show ?thesis by (simp only: join_spec)
qed

lemma fetchSid_log:
  "cookie_header cookies = Inr c \<Longrightarrow>
     log (snd (fetchSid env cookies h)) =
       log h @ [Invoke ''fetchSid'',
                LoadJSON \<lparr>url = ''https://api.simpel.nl/account/subscription-overview'',
                          http_method = ''GET'', headers = [(''Cookie'', c)], body = None\<rparr>]"
  by (auto simp: fetchSid_def prog_defs Let_def cacheData_log split: sum.splits)

lemma fetchData_log:
  "ToString sid = Inr sid_text \<Longrightarrow> cookie_header cookies = Inr c \<Longrightarrow>
     \<exists>evs. log (snd (fetchData env sid cookies h)) =
       log h @ [Invoke ''fetchData'',
                Load \<lparr>url = ''https://mijn.simpel.nl/api/usage/usage-summary?sid='' @ sid_text,
                      http_method = ''GET'', headers = [(''Cookie'', c)], body = None\<rparr>] @ evs"
  by (auto simp: fetchData_def prog_defs Let_def split: sum.splits)

text \<open>
  Claim C7. For a sequence of cookies, the Cookie header that the script builds is the
  pairs \<^verbatim>\<open>name=value\<close> joined by a semicolon and a space, in the order of the sequence;
  it is the header of the request that \<^verbatim>\<open>fetchSid\<close> sends and of the request that
  \<^verbatim>\<open>fetchData\<close> sends. For the cookies \<^verbatim>\<open>a=1\<close> and \<^verbatim>\<open>b=2\<close> it is exactly
  \<^verbatim>\<open>a=1; b=2\<close> (the scenario after the theorem).
\<close>

theorem cookie_header_serialization:
  assumes "list_all2 is_cookie cs nvs"
  shows "cookie_header (Arr cs) = Inr (spec_cookie_header nvs)
    \<and> LoadJSON \<lparr>url = ''https://api.simpel.nl/account/subscription-overview'',
                   http_method = ''GET'',
                   headers = [(''Cookie'', spec_cookie_header nvs)], body = None\<rparr>
           \<in> set (log (snd (fetchSid env (Arr cs) h)))
    \<and> (ToString sid = Inr sid_text \<longrightarrow>
         Load \<lparr>url = ''https://mijn.simpel.nl/api/usage/usage-summary?sid='' @ sid_text,
               http_method = ''GET'',
               headers = [(''Cookie'', spec_cookie_header nvs)], body = None\<rparr>
           \<in> set (log (snd (fetchData env sid (Arr cs) h))))"
proof -
  have hd: "cookie_header (Arr cs) = Inr (spec_cookie_header nvs)"
    using assms by (rule cookie_header_spec)
  have sid: "LoadJSON \<lparr>url = ''https://api.simpel.nl/account/subscription-overview'',
                   http_method = ''GET'',
                   headers = [(''Cookie'', spec_cookie_header nvs)], body = None\<rparr>
           \<in> set (log (snd (fetchSid env (Arr cs) h)))"
    by (simp add: fetchSid_log[OF hd])
  have dat: "Load \<lparr>url = ''https://mijn.simpel.nl/api/usage/usage-summary?sid='' @ sid_text,
               http_method = ''GET'',
               headers = [(''Cookie'', spec_cookie_header nvs)], body = None\<rparr>
           \<in> set (log (snd (fetchData env sid (Arr cs) h)))"
    if "ToString sid = Inr sid_text"
    using fetchData_log[OF that hd, of env h] by auto
  from hd sid dat show ?thesis by blast
qed

theorem cookie_header_serialization_witness:
  "list_all2 is_cookie
     [Obj [(''name'', Str ''a''), (''value'', Str ''1'')],
      Obj [(''name'', Str ''b''), (''value'', Str ''2'')]]
     [(''a'', ''1''), (''b'', ''2'')]
   \<and> cookie_header (Arr [Obj [(''name'', Str ''a''), (''value'', Str ''1'')],
                          Obj [(''name'', Str ''b''), (''value'', Str ''2'')]])
       = Inr ''a=1; b=2''"
proof -
  have a: "list_all2 is_cookie
     [Obj [(''name'', Str ''a''), (''value'', Str ''1'')],
      Obj [(''name'', Str ''b''), (''value'', Str ''2'')]]
     [(''a'', ''1''), (''b'', ''2'')]"
    by (simp add: is_cookie_def)
  from a cookie_header_serialization[OF a] show ?thesis by simp
qed

section \<open>The orchestrator\<close>

text \<open>
  Claim C3. When nothing is cached under \<^verbatim>\<open>credentials.json\<close> and the operator cancels
  the alert, the run ends with the fault of the cancelled prompt. Up to then the script has
  presented the alert and nothing else: it has sent no request, and files and directories
  are as before, so nothing is written under \<^verbatim>\<open>credentials.json\<close>.
\<close>

theorem run_cancelled:
  "\<not> fileExists h (cache_path h ''credentials.json'') \<Longrightarrow> alert_response env = - 1 \<Longrightarrow>
     fst (run env h) = Inl (Error ''User cancelled the login prompt.'')
     \<and> files (snd (run env h)) = files h
     \<and> dirs (snd (run env h)) = dirs h
     \<and> log (snd (run env h)) = log h @ [Invoke ''promptForCredentials'', PresentAlert]"
  by (simp add: run_def promptForCredentials_def prog_defs getCachedData_absent)

theorem run_cancelled_witness:
  "\<not> fileExists fresh_host (cache_path fresh_host ''credentials.json'')
   \<and> alert_response (example_env\<lparr>alert_response := - 1\<rparr>) = - 1
   \<and> fst (run (example_env\<lparr>alert_response := - 1\<rparr>) fresh_host)
       = Inl (Error ''User cancelled the login prompt.'')
   \<and> files (snd (run (example_env\<lparr>alert_response := - 1\<rparr>) fresh_host)) = files fresh_host
   \<and> dirs (snd (run (example_env\<lparr>alert_response := - 1\<rparr>) fresh_host)) = dirs fresh_host
   \<and> log (snd (run (example_env\<lparr>alert_response := - 1\<rparr>) fresh_host))
       = log fresh_host @ [Invoke ''promptForCredentials'', PresentAlert]"
proof -
  have a: "\<not> fileExists fresh_host (cache_path fresh_host ''credentials.json'')"
    by (simp add: fileExists_def fresh_host_def)
  have b: "alert_response (example_env\<lparr>alert_response := - 1\<rparr>) = - 1" by simp
  from a b run_cancelled[OF a b] show ?thesis by blast
qed

section \<open>Reading back what JSON.stringify wrote\<close>

subsection \<open>Numbers\<close>

lemma is_digit_char_of: "d < 10 \<Longrightarrow> is_digit (char_of (48 + d :: nat))"
  by (simp add: is_digit_def)

lemma digits_nonempty: "digits n \<noteq> []"
  by (subst digits.simps) simp

lemma digits_all_digit: "c \<in> set (digits n) \<Longrightarrow> is_digit c"
proof (induction n arbitrary: c rule: digits.induct)
  case (1 n)
  show ?case
  proof (cases "n < 10")
    case True
    with "1.prems" show ?thesis
      by (subst (asm) digits.simps) (simp add: is_digit_char_of)
  next
    case False
    with "1.prems" have "c \<in> set (digits (n div 10)) \<or> c = char_of (48 + n mod 10)"
      by (subst (asm) digits.simps) auto
    with False "1.IH" show ?thesis
      by (auto simp: is_digit_char_of)
  qed
qed

lemma digits_val_snoc: "digits_val (ds @ [c]) = digits_val ds * 10 + (of_char c - 48)"
  by (simp add: digits_val_def)

lemma digits_val_digits: "digits_val (digits n) = n"
proof (induction n rule: digits.induct)
  case (1 n)
  show ?case
  proof (cases "n < 10")
    case True
    then show ?thesis
      by (subst digits.simps) (simp add: digits_val_def)
  next
    case False
    with "1.IH" have "digits_val (digits (n div 10)) = n div 10" by simp
    with False show ?thesis
      by (subst digits.simps) (simp add: digits_val_snoc)
  qed
qed

lemma digits_leading_zero: "hd (digits n) = CHR ''0'' \<Longrightarrow> n = 0"
proof (induction n rule: digits.induct)
  case (1 n)
  show ?case
  proof (cases "n < 10")
    case True
    with "1.prems" have "char_of (48 + n) = CHR ''0''"
      by (subst (asm) digits.simps) simp
    then have "(of_char (char_of (48 + n)) :: nat) = of_char (CHR ''0'')" by simp
    with True show ?thesis by simp
  next
    case False
    with "1.prems" have "hd (digits (n div 10)) = CHR ''0''"
      by (subst (asm) digits.simps) (simp add: digits_nonempty)
    with False "1.IH" have "n div 10 = 0" by simp
    with False show ?thesis by simp
  qed
qed

lemma digits_zero: "digits 0 = ''0''"
  by (subst digits.simps) (simp add: char_of_def bit_simps)

lemma takeWhile_digits:
  assumes "rest = [] \<or> \<not> is_digit (hd rest)"
  shows "takeWhile is_digit (digits n @ rest) = digits n"
    and "dropWhile is_digit (digits n @ rest) = rest"
proof -
  have all: "\<forall>c \<in> set (digits n). is_digit c" by (simp add: digits_all_digit)
  from assms have tw: "takeWhile is_digit rest = []" and dw: "dropWhile is_digit rest = rest"
    by (cases rest; auto)+
  from all tw show "takeWhile is_digit (digits n @ rest) = digits n"
    by (simp add: takeWhile_append2)
  from all dw show "dropWhile is_digit (digits n @ rest) = rest"
    by (simp add: dropWhile_append2)
qed

lemma lex_int_digits:
  assumes "int n \<le> MAX_SAFE_INTEGER" and "number_end rest"
  shows "lex_int (digits n @ rest) = Inr (n, rest)"
proof -
  from assms(2) have e: "rest = [] \<or> \<not> is_digit (hd rest)" by (auto simp: number_end_def)
  have z: "\<not> (hd (digits n) = CHR ''0'' \<and> length (digits n) > 1)"
    using digits_leading_zero[of n] by (auto simp: digits_zero)
  from assms(2) have f: "\<not> (rest \<noteq> [] \<and> hd rest \<in> {CHR ''.'', CHR ''e'', CHR ''E''})"
    by (auto simp: number_end_def)
  show ?thesis
    unfolding lex_int_def Let_def takeWhile_digits[OF e] digits_val_digits
    using z f assms(1) digits_nonempty[of n] by simp
qed

lemma hd_digits_not_minus: "hd (digits n) \<noteq> CHR ''-''"
proof -
  have "hd (digits n) \<in> set (digits n)" by (simp add: digits_nonempty)
  then have "is_digit (hd (digits n))" by (rule digits_all_digit)
  then show ?thesis by (auto simp: is_digit_def)
qed

lemma lex_number_toString:
  assumes "\<bar>i\<bar> \<le> MAX_SAFE_INTEGER" and "number_end rest"
  shows "lex_number (Number_toString i @ rest) = Inr (i, rest)"
proof (cases "i < 0")
  case True
  with assms(1) have "int (nat (- i)) \<le> MAX_SAFE_INTEGER" by simp
  from lex_int_digits[OF this assms(2)] True show ?thesis
    by (simp add: lex_number_def Number_toString_def)
next
  case False
  with assms(1) have "int (nat i) \<le> MAX_SAFE_INTEGER" by simp
  from lex_int_digits[OF this assms(2)] False hd_digits_not_minus[of "nat i"] digits_nonempty[of "nat i"]
  show ?thesis
    by (simp add: lex_number_def Number_toString_def)
qed

lemma Number_toString_head:
  "\<exists>c cs. Number_toString i = c # cs \<and> (c = CHR ''-'' \<or> is_digit c)"
proof (cases "i < 0")
  case True
  then show ?thesis by (simp add: Number_toString_def)
next
  case False
  obtain c cs where d: "digits (nat i) = c # cs"
    using digits_nonempty[of "nat i"] by (cases "digits (nat i)") auto
  then have "is_digit c" using digits_all_digit[of c "nat i"] by simp
  with d False show ?thesis by (simp add: Number_toString_def)
qed

lemma char_neq_by_code: "(of_char c :: nat) \<noteq> of_char d \<Longrightarrow> c \<noteq> d"
  by auto

lemma digit_not_punct:
  assumes "c = CHR ''-'' \<or> is_digit c"
  shows "punctuator c = None \<and> c \<noteq> CHR 0x22 \<and> \<not> is_ws c"
proof -
  from assms have n: "(of_char c :: nat) = 45 \<or> (48 \<le> (of_char c :: nat) \<and> (of_char c :: nat) \<le> 57)"
    unfolding is_digit_def by auto
  have "c \<noteq> CHR ''{''" "c \<noteq> CHR ''}''" "c \<noteq> CHR ''[''" "c \<noteq> CHR '']''" "c \<noteq> CHR '':''"
    "c \<noteq> CHR '',''" "c \<noteq> CHR 0x22" "c \<noteq> CHR 0x20" "c \<noteq> CHR 0x09" "c \<noteq> CHR 0x0A" "c \<noteq> CHR 0x0D"
    using n by (auto intro!: char_neq_by_code)
  then show ?thesis by (simp add: punctuator_def is_ws_def)
qed

lemma lex_Number_toString:
  assumes "\<bar>i\<bar> \<le> MAX_SAFE_INTEGER" and "number_end rest"
  shows "lex (Number_toString i @ rest) = cons_tok (TNum i) (lex rest)"
proof -
  obtain c cs where s: "Number_toString i = c # cs" and c: "c = CHR ''-'' \<or> is_digit c"
    using Number_toString_head by blast
  have "lex_number (c # cs @ rest) = Inr (i, rest)"
    using lex_number_toString[OF assms] s by simp
  with digit_not_punct[OF c] c have "lex_atom c (cs @ rest) = Inr (TNum i, rest)"
    by (simp add: lex_atom_def)
  with digit_not_punct[OF c] s show ?thesis by simp
qed

subsection \<open>Strings, literals, punctuation\<close>

lemma hex_val_hex_digit: "d < 16 \<Longrightarrow> hex_val (hex_digit d) = Some d"
  by (simp add: hex_val_def hex_digit_def Let_def)

lemma hex_val_zero: "hex_val (CHR ''0'') = Some 0"
  by (simp add: hex_val_def)

lemma lex_escape_unicode:
  "lex_escape (tl (UnicodeEscape c) @ t) = Inr (c, t)"
proof -
  have d: "(of_char c :: nat) div 16 < 16" "(of_char c :: nat) mod 16 < 16"
    using nat_of_char_less_256[of c] by (simp_all add: less_mult_imp_div_less)
  have "hex4 (CHR ''0'') (CHR ''0'') (hex_digit (of_char c div 16)) (hex_digit (of_char c mod 16))
        = Some (of_char c)"
    by (simp add: hex4_def hex_val_zero hex_val_hex_digit[OF d(1)] hex_val_hex_digit[OF d(2)])
  then show ?thesis
    by (simp add: lex_escape_def UnicodeEscape_def)
qed

lemma lex_string_unicode:
  "lex_string (UnicodeEscape c @ t) = cons_str c (lex_string t)"
proof -
  have "UnicodeEscape c = CHR 0x5C # tl (UnicodeEscape c)"
    by (simp add: UnicodeEscape_def)
  then have "lex_string (UnicodeEscape c @ t) = lex_string (CHR 0x5C # (tl (UnicodeEscape c) @ t))"
    by (metis append_Cons)
  also have "\<dots> = cons_str c (lex_string t)"
    by (simp add: lex_escape_unicode)
  finally show ?thesis .
qed

lemma lex_string_QuoteJSONChar:
  "lex_string (QuoteJSONChar c @ t) = cons_str c (lex_string t)"
proof -
  consider (b) "c = CHR 0x08" | (t) "c = CHR 0x09" | (n) "c = CHR 0x0A" | (f) "c = CHR 0x0C"
    | (r) "c = CHR 0x0D" | (q) "c = CHR 0x22" | (bs) "c = CHR 0x5C"
    | (ctl) "c \<noteq> CHR 0x08" "c \<noteq> CHR 0x09" "c \<noteq> CHR 0x0A" "c \<noteq> CHR 0x0C" "c \<noteq> CHR 0x0D"
            "c \<noteq> CHR 0x22" "c \<noteq> CHR 0x5C" "(of_char c :: nat) < 0x20"
    | (plain) "c \<noteq> CHR 0x08" "c \<noteq> CHR 0x09" "c \<noteq> CHR 0x0A" "c \<noteq> CHR 0x0C" "c \<noteq> CHR 0x0D"
            "c \<noteq> CHR 0x22" "c \<noteq> CHR 0x5C" "\<not> (of_char c :: nat) < 0x20"
    by blast
  then show ?thesis
  proof cases
    case b
    then show ?thesis
      by (simp add: QuoteJSONChar_def lex_escape_def unescape_def)
  next
    case t
    then show ?thesis
      by (simp add: QuoteJSONChar_def lex_escape_def unescape_def)
  next
    case n
    then show ?thesis
      by (simp add: QuoteJSONChar_def lex_escape_def unescape_def)
  next
    case f
    then show ?thesis
      by (simp add: QuoteJSONChar_def lex_escape_def unescape_def)
  next
    case r
    then show ?thesis
      by (simp add: QuoteJSONChar_def lex_escape_def unescape_def)
  next
    case q
    then show ?thesis
      by (simp add: QuoteJSONChar_def lex_escape_def unescape_def)
  next
    case bs
    then show ?thesis
      by (simp add: QuoteJSONChar_def lex_escape_def unescape_def)
  next
    case ctl
    then show ?thesis
      by (simp add: QuoteJSONChar_def lex_string_unicode)
  next
    case plain
    then show ?thesis
      by (simp add: QuoteJSONChar_def)
  qed
qed

lemma lex_string_quoted:
  "lex_string (concat (map QuoteJSONChar s) @ CHR 0x22 # rest) = Inr (s, rest)"
  by (induction s) (simp_all add: lex_string_QuoteJSONChar cons_str_def)

lemma lex_QuoteJSONString:
  "lex (QuoteJSONString s @ rest) = cons_tok (TStr s) (lex rest)"
  by (simp add: QuoteJSONString_def lex_atom_def punctuator_def is_ws_def lex_string_quoted)

lemma lex_literals:
  "lex (''null'' @ rest) = cons_tok TNull (lex rest)"
  "lex (''true'' @ rest) = cons_tok TTrue (lex rest)"
  "lex (''false'' @ rest) = cons_tok TFalse (lex rest)"
  by (simp_all add: lex_atom_def punctuator_def is_ws_def is_digit_def lex_keyword_def)

lemma lex_punctuation:
  "lex (CHR ''['' # rest) = cons_tok TLBracket (lex rest)"
  "lex (CHR '']'' # rest) = cons_tok TRBracket (lex rest)"
  "lex (CHR ''{'' # rest) = cons_tok TLBrace (lex rest)"
  "lex (CHR ''}'' # rest) = cons_tok TRBrace (lex rest)"
  "lex (CHR '','' # rest) = cons_tok TComma (lex rest)"
  "lex (CHR '':'' # rest) = cons_tok TColon (lex rest)"
  by (simp_all add: lex_atom_def punctuator_def is_ws_def)

subsection \<open>From text to tokens\<close>

lemma cons_tok_app: "cons_tok t r = app_toks [t] r"
  by (auto simp: app_toks_def cons_tok_def split: sum.splits)

lemma app_toks_app: "app_toks ts (app_toks us r) = app_toks (ts @ us) r"
  by (auto simp: app_toks_def split: sum.splits)

lemma app_toks_Nil: "app_toks [] r = r"
  by (auto simp: app_toks_def split: sum.splits)

lemma embedded_json_Some: "embedded_json v \<Longrightarrow> SerializeJSONProperty v \<noteq> None"
  by (cases v) auto

lemma SerializeJSONArray_map:
  "\<forall>x \<in> set xs. embedded_json x \<Longrightarrow> SerializeJSONArray xs = map text_of xs"
  by (induction xs) (auto simp: text_of_def dest: embedded_json_Some)

lemma SerializeJSONObject_map:
  "\<forall>kv \<in> set kvs. embedded_json (snd kv) \<Longrightarrow>
     SerializeJSONObject kvs = map (\<lambda>kv. QuoteJSONString (fst kv) @ '':'' @ text_of (snd kv)) kvs"
  by (induction kvs) (auto simp: text_of_def dest: embedded_json_Some)

lemma number_end_punct:
  "number_end (CHR '','' # r)" "number_end (CHR '']'' # r)" "number_end (CHR ''}'' # r)"
  "number_end []"
  by (simp_all add: number_end_def is_digit_def)

lemma lex_join:
  assumes "\<forall>x \<in> set xs. \<forall>r. number_end r \<longrightarrow> lex (f x @ r) = app_toks (g x) (lex r)"
    and "number_end r"
  shows "lex (join '','' (map f xs) @ r) = app_toks (tjoin (map g xs)) (lex r)"
  using assms
proof (induction xs rule: induct_list012)
  case 1
  then show ?case by (simp add: app_toks_Nil)
next
  case (2 x)
  then show ?case by simp
next
  case (3 x y ys)
  have "lex (join '','' (map f (x # y # ys)) @ r) = lex (f x @ (CHR '','' # join '','' (map f (y # ys)) @ r))"
    by simp
  also have "\<dots> = app_toks (g x) (lex (CHR '','' # join '','' (map f (y # ys)) @ r))"
    using "3.prems"(1) number_end_punct(1) by simp
  also have "\<dots> = app_toks (g x) (app_toks [TComma] (lex (join '','' (map f (y # ys)) @ r)))"
    by (simp only: lex_punctuation cons_tok_app)
  also have "\<dots> = app_toks (g x) (app_toks [TComma] (app_toks (tjoin (map g (y # ys))) (lex r)))"
    using "3.IH"(2) "3.prems" by simp
  also have "\<dots> = app_toks (tjoin (map g (x # y # ys))) (lex r)"
    by (simp add: app_toks_app)
  finally show ?case .
qed

lemma lex_text_of:
  "embedded_json v \<Longrightarrow> number_end r \<Longrightarrow> lex (text_of v @ r) = app_toks (tokens_of v) (lex r)"
proof (induction v arbitrary: r)
  case Undefined
  then show ?case by simp
next
  case Null
  then show ?case using lex_literals(1)[of r] by (simp add: text_of_def cons_tok_app)
next
  case (Bool b)
  then show ?case using lex_literals(2,3)[of r] by (simp add: text_of_def cons_tok_app)
next
  case (Num n)
  then show ?case using lex_Number_toString[of n r] by (simp add: text_of_def cons_tok_app)
next
  case (Str s)
  then show ?case using lex_QuoteJSONString[of s r] by (simp add: text_of_def cons_tok_app)
next
  case (Arr xs)
  then have ser: "\<forall>x \<in> set xs. embedded_json x" by simp
  have el: "\<forall>x \<in> set xs. \<forall>r. number_end r \<longrightarrow> lex (text_of x @ r) = app_toks (tokens_of x) (lex r)"
    using Arr.IH ser by blast
  have "text_of (Arr xs) @ r = CHR ''['' # join '','' (map text_of xs) @ (CHR '']'' # r)"
    by (simp add: text_of_def SerializeJSONArray_map[OF ser])
  then have "lex (text_of (Arr xs) @ r)
      = app_toks [TLBracket] (lex (join '','' (map text_of xs) @ (CHR '']'' # r)))"
    by (simp only: lex_punctuation cons_tok_app)
  also have "\<dots> = app_toks [TLBracket] (app_toks (tjoin (map tokens_of xs)) (lex (CHR '']'' # r)))"
    using lex_join[OF el number_end_punct(2)] by simp
  also have "\<dots> = app_toks [TLBracket] (app_toks (tjoin (map tokens_of xs)) (app_toks [TRBracket] (lex r)))"
    by (simp only: lex_punctuation cons_tok_app)
  also have "\<dots> = app_toks (tokens_of (Arr xs)) (lex r)"
    by (simp add: app_toks_app)
  finally show ?case .
next
  case (Obj kvs)
  then have ser: "\<forall>kv \<in> set kvs. embedded_json (snd kv)" by simp
  let ?f = "\<lambda>kv. QuoteJSONString (fst kv) @ '':'' @ text_of (snd kv)"
  let ?g = "\<lambda>kv. TStr (fst kv) # TColon # tokens_of (snd kv)"
  have el: "\<forall>kv \<in> set kvs. \<forall>r. number_end r \<longrightarrow> lex (?f kv @ r) = app_toks (?g kv) (lex r)"
  proof (intro ballI allI impI)
    fix kv r
    assume kv: "kv \<in> set kvs" and r: "number_end r"
    have v: "lex (text_of (snd kv) @ r) = app_toks (tokens_of (snd kv)) (lex r)"
      using Obj.IH[of kv "snd kv" r] kv ser r by (cases kv) auto
    have "lex (?f kv @ r) = lex (QuoteJSONString (fst kv) @ (CHR '':'' # text_of (snd kv) @ r))"
      by simp
    also have "\<dots> = app_toks [TStr (fst kv)] (app_toks [TColon] (lex (text_of (snd kv) @ r)))"
      by (simp only: lex_QuoteJSONString lex_punctuation cons_tok_app)
    also have "\<dots> = app_toks (?g kv) (lex r)"
      by (simp add: v app_toks_app)
    finally show "lex (?f kv @ r) = app_toks (?g kv) (lex r)" .
  qed
  have "text_of (Obj kvs) @ r = CHR ''{'' # join '','' (map ?f kvs) @ (CHR ''}'' # r)"
    by (simp add: text_of_def SerializeJSONObject_map[OF ser])
  then have "lex (text_of (Obj kvs) @ r)
      = app_toks [TLBrace] (lex (join '','' (map ?f kvs) @ (CHR ''}'' # r)))"
    by (simp only: lex_punctuation cons_tok_app)
  also have "\<dots> = app_toks [TLBrace] (app_toks (tjoin (map ?g kvs)) (lex (CHR ''}'' # r)))"
    using lex_join[OF el number_end_punct(3)] by simp
  also have "\<dots> = app_toks [TLBrace] (app_toks (tjoin (map ?g kvs)) (app_toks [TRBrace] (lex r)))"
    by (simp only: lex_punctuation cons_tok_app)
  also have "\<dots> = app_toks (tokens_of (Obj kvs)) (lex r)"
    by (simp add: app_toks_app)
  finally show ?case .
qed

subsection \<open>From tokens to the value\<close>

lemma CreateDataProperty_new:
  "k \<notin> fst ` set ms \<Longrightarrow> CreateDataProperty ms k v = ms @ [(k, v)]"
  by (induction ms) auto

lemma tokens_of_start:
  "embedded_json v \<Longrightarrow> \<exists>t us. tokens_of v = t # us \<and> t \<noteq> TRBracket"
  by (cases v) auto

lemma parse_elems:
  assumes "\<forall>x \<in> set xs. \<forall>st ts.
             parse_tokens (PValue st) (tokens_of x @ ts) = parse_tokens (push_value x st) ts"
    and "xs \<noteq> []"
  shows "parse_tokens (PValue (FArr es # st)) (tjoin (map tokens_of xs) @ TRBracket # ts)
       = parse_tokens (push_value (Arr (es @ xs)) st) ts"
  using assms
proof (induction xs arbitrary: es rule: induct_list012)
  case 1
  then show ?case by simp
next
  case (2 x)
  then show ?case by simp
next
  case (3 x y zs)
  have "parse_tokens (PValue (FArr es # st)) (tjoin (map tokens_of (x # y # zs)) @ TRBracket # ts)
      = parse_tokens (PValue (FArr es # st))
          (tokens_of x @ (TComma # tjoin (map tokens_of (y # zs)) @ TRBracket # ts))"
    by simp
  also have "\<dots> = parse_tokens (push_value x (FArr es # st))
          (TComma # tjoin (map tokens_of (y # zs)) @ TRBracket # ts)"
    using "3.prems"(1) by simp
  also have "\<dots> = parse_tokens (PValue (FArr (es @ [x]) # st))
          (tjoin (map tokens_of (y # zs)) @ TRBracket # ts)"
    by simp
  also have "\<dots> = parse_tokens (push_value (Arr ((es @ [x]) @ y # zs)) st) ts"
    using "3.IH"(2)[of "es @ [x]"] "3.prems"(1) by simp
  finally show ?case by simp
qed

lemma parse_members:
  assumes "\<forall>kv \<in> set kvs. \<forall>st ts.
             parse_tokens (PValue st) (tokens_of (snd kv) @ ts)
               = parse_tokens (push_value (snd kv) st) ts"
    and "kvs \<noteq> []"
    and "distinct (map fst (ms @ kvs))"
  shows "parse_tokens (PObjKey ms st)
           (tjoin (map (\<lambda>kv. TStr (fst kv) # TColon # tokens_of (snd kv)) kvs) @ TRBrace # ts)
       = parse_tokens (push_value (Obj (ms @ kvs)) st) ts"
  using assms
proof (induction kvs arbitrary: ms rule: induct_list012)
  case 1
  then show ?case by simp
next
  case (2 kv)
  then have new: "fst kv \<notin> fst ` set ms" by auto
  have "parse_tokens (PObjKey ms st)
          (tjoin (map (\<lambda>kv. TStr (fst kv) # TColon # tokens_of (snd kv)) [kv]) @ TRBrace # ts)
      = parse_tokens (PValue (FObj ms (fst kv) # st)) (tokens_of (snd kv) @ TRBrace # ts)"
    by simp
  also have "\<dots> = parse_tokens (push_value (snd kv) (FObj ms (fst kv) # st)) (TRBrace # ts)"
    using "2.prems"(1) by simp
  also have "\<dots> = parse_tokens (push_value (Obj (ms @ [kv])) st) ts"
    using CreateDataProperty_new[OF new, of "snd kv"] by simp
  finally show ?case .
next
  case (3 kv kv' rest)
  then have new: "fst kv \<notin> fst ` set ms" by auto
  from "3.prems"(3) have dist: "distinct (map fst ((ms @ [kv]) @ kv' # rest))" by simp
  have "parse_tokens (PObjKey ms st)
          (tjoin (map (\<lambda>kv. TStr (fst kv) # TColon # tokens_of (snd kv)) (kv # kv' # rest))
             @ TRBrace # ts)
      = parse_tokens (PValue (FObj ms (fst kv) # st))
          (tokens_of (snd kv) @ (TComma #
             tjoin (map (\<lambda>kv. TStr (fst kv) # TColon # tokens_of (snd kv)) (kv' # rest))
             @ TRBrace # ts))"
    by simp
  also have "\<dots> = parse_tokens (push_value (snd kv) (FObj ms (fst kv) # st))
          (TComma # tjoin (map (\<lambda>kv. TStr (fst kv) # TColon # tokens_of (snd kv)) (kv' # rest))
             @ TRBrace # ts)"
    using "3.prems"(1) by simp
  also have "\<dots> = parse_tokens (PObjKey (ms @ [kv]) st)
          (tjoin (map (\<lambda>kv. TStr (fst kv) # TColon # tokens_of (snd kv)) (kv' # rest))
             @ TRBrace # ts)"
    using CreateDataProperty_new[OF new, of "snd kv"] by simp
  also have "\<dots> = parse_tokens (push_value (Obj ((ms @ [kv]) @ kv' # rest)) st) ts"
    using "3.IH"(2)[OF _ _ dist] "3.prems"(1) by simp
  finally show ?case by simp
qed

lemma parse_tokens_of:
  "embedded_json v \<Longrightarrow>
     parse_tokens (PValue st) (tokens_of v @ ts) = parse_tokens (push_value v st) ts"
proof (induction v arbitrary: st ts)
  case (Arr xs)
  show ?case
  proof (cases xs)
    case Nil
    then show ?thesis by simp
  next
    case (Cons x xs')
    from Arr.prems have ser: "\<forall>x \<in> set xs. embedded_json x" by simp
    then have el: "\<forall>x \<in> set xs. \<forall>st ts.
             parse_tokens (PValue st) (tokens_of x @ ts) = parse_tokens (push_value x st) ts"
      using Arr.IH by blast
    from ser Cons obtain t us where t: "tokens_of x = t # us" "t \<noteq> TRBracket"
      using tokens_of_start[of x] by auto
    then obtain ws where ws: "tjoin (map tokens_of xs) = t # ws"
      using Cons by (cases xs') auto
    have "parse_tokens (PValue st) (tokens_of (Arr xs) @ ts)
        = parse_tokens (PArrFirst st) (tjoin (map tokens_of xs) @ TRBracket # ts)"
      by simp
    also have "\<dots> = parse_tokens (PValue (FArr [] # st)) (tjoin (map tokens_of xs) @ TRBracket # ts)"
      using t(2) by (simp add: ws)
    also have "\<dots> = parse_tokens (push_value (Arr ([] @ xs)) st) ts"
      using parse_elems[OF el, of "[]" st ts] Cons by simp
    finally show ?thesis by simp
  qed
next
  case (Obj kvs)
  show ?case
  proof (cases kvs)
    case Nil
    then show ?thesis by simp
  next
    case (Cons kv kvs')
    from Obj.prems have ser: "\<forall>kv \<in> set kvs. embedded_json (snd kv)"
      and dist: "distinct (map fst ([] @ kvs))" by simp_all
    have el: "\<forall>kv \<in> set kvs. \<forall>st ts.
             parse_tokens (PValue st) (tokens_of (snd kv) @ ts)
               = parse_tokens (push_value (snd kv) st) ts"
    proof (intro ballI allI)
      fix kv st ts
      assume "kv \<in> set kvs"
      with ser Obj.IH[of kv "snd kv" st ts]
      show "parse_tokens (PValue st) (tokens_of (snd kv) @ ts)
               = parse_tokens (push_value (snd kv) st) ts"
        by (cases kv) auto
    qed
    let ?g = "\<lambda>kv. TStr (fst kv) # TColon # tokens_of (snd kv)"
    obtain ws where ws: "tjoin (map ?g kvs) = TStr (fst kv) # ws"
      using Cons by (cases kvs') auto
    have "parse_tokens (PValue st) (tokens_of (Obj kvs) @ ts)
        = parse_tokens (PObjFirst st) (tjoin (map ?g kvs) @ TRBrace # ts)"
      by simp
    also have "\<dots> = parse_tokens (PObjKey [] st) (tjoin (map ?g kvs) @ TRBrace # ts)"
      by (simp add: ws)
    also have "\<dots> = parse_tokens (push_value (Obj ([] @ kvs)) st) ts"
      using parse_members[OF el _ dist, of st ts] Cons by simp
    finally show ?thesis by simp
  qed
qed simp_all

lemma parse_text_text_of: "embedded_json v \<Longrightarrow> parse_text (text_of v) = Inr v"
proof -
  assume ser: "embedded_json v"
  have "lex (text_of v @ []) = app_toks (tokens_of v) (lex [])"
    using ser number_end_punct(4) by (rule lex_text_of)
  then have "lex (text_of v) = Inr (tokens_of v)"
    by (simp add: app_toks_def)
  moreover have "parse_tokens (PValue []) (tokens_of v @ []) = parse_tokens (push_value v []) []"
    using ser by (rule parse_tokens_of)
  ultimately show ?thesis by (simp add: parse_text_def)
qed

subsection \<open>The cache round trip\<close>

lemma JSON_stringify_text_of: "embedded_json v \<Longrightarrow> JSON_stringify v = Some (text_of v)"
  using embedded_json_Some[of v] by (auto simp: JSON_stringify_def text_of_def)

lemma JSON_parse_Str: "JSON_parse (Str s) = parse_text s"
  by (simp add: JSON_parse_def)

lemma cacheData_written:
  "JSON_stringify v = Some s \<Longrightarrow>
     fst (cacheData n v h) = Inr ()
     \<and> files (snd (cacheData n v h)) (cache_path h n) = Some s"
  by (simp add: cacheData_def Let_def createDirectory_def writeString_def cache_path_def)

text \<open>
  The round trip of the cache for the values of the embedding that JSON text carries: for
  such a value \<open>v\<close> and every name \<open>n\<close>, \<^verbatim>\<open>cacheData\<close> of \<open>v\<close> under \<open>n\<close> succeeds, and
  \<^verbatim>\<open>getCachedData\<close> of \<open>n\<close> afterwards returns \<open>v\<close> itself. This is the part of claim C8
  that the embedding states; numbers that are not safe integers (doubles, with their
  shortest round-trip printing) and code units above \<open>0xFF\<close> are not values of it.
\<close>

lemma cache_round_trip:
  assumes "embedded_json v"
  shows "fst (cacheData n v h) = Inr ()
       \<and> fst (getCachedData n (snd (cacheData n v h))) = Inr v"
proof -
  let ?h = "snd (cacheData n v h)"
  from assms have s: "JSON_stringify v = Some (text_of v)" by (rule JSON_stringify_text_of)
  from cacheData_written[OF s, of n h]
  have ok: "fst (cacheData n v h) = Inr ()"
    and written: "files ?h (cache_path ?h n) = Some (text_of v)"
    by (simp_all add: cacheData_cache_path)
  from written have "fileExists ?h (cache_path ?h n)"
    and "readString ?h (cache_path ?h n) = Str (text_of v)"
    by (simp_all add: fileExists_def readString_def)
  then have "fst (getCachedData n ?h) = parse_text (text_of v)"
    by (simp add: getCachedData_alt JSON_parse_Str)
  with assms ok show ?thesis by (simp add: parse_text_text_of)
qed

lemma cache_round_trip_example:
  "embedded_json (Obj [(''username'', Str ''alice''), (''password'', Str [CHR 0x22, CHR 0x0A, CHR 0x01]),
                      (''cookies'', Arr [Num (- 42), Bool True, Null, Arr [], Obj []])])
   \<and> fst (cacheData ''credentials.json''
            (Obj [(''username'', Str ''alice''), (''password'', Str [CHR 0x22, CHR 0x0A, CHR 0x01]),
                  (''cookies'', Arr [Num (- 42), Bool True, Null, Arr [], Obj []])]) fresh_host)
       = Inr ()
   \<and> fst (getCachedData ''credentials.json''
            (snd (cacheData ''credentials.json''
               (Obj [(''username'', Str ''alice''), (''password'', Str [CHR 0x22, CHR 0x0A, CHR 0x01]),
                     (''cookies'', Arr [Num (- 42), Bool True, Null, Arr [], Obj []])]) fresh_host)))
       = Inr (Obj [(''username'', Str ''alice''), (''password'', Str [CHR 0x22, CHR 0x0A, CHR 0x01]),
                   (''cookies'', Arr [Num (- 42), Bool True, Null, Arr [], Obj []])])"
proof -
  have a: "embedded_json (Obj [(''username'', Str ''alice''),
                              (''password'', Str [CHR 0x22, CHR 0x0A, CHR 0x01]),
                              (''cookies'', Arr [Num (- 42), Bool True, Null, Arr [], Obj []])])"
    by (simp add: MAX_SAFE_INTEGER_def)
  from a cache_round_trip[OF a, of "''credentials.json''" fresh_host] show ?thesis by blast
qed

section \<open>The stage short-circuit\<close>

lemma run_stages: "run env = bind (credentials_stage env) (session_stage env)"
  by (simp add: run_def credentials_stage_def session_stage_def subscription_stage_def bind_def
      fun_eq_iff split: prod.splits sum.splits)

lemma quiet_return: "quiet (return x)"
  by (simp add: quiet_def return_def)

lemma quiet_throw: "quiet (throw e)"
  by (simp add: quiet_def throw_def)

lemma quiet_lift: "quiet (lift r)"
  by (simp add: quiet_def lift_def)

lemma quiet_emit: "no_login ev \<Longrightarrow> quiet (emit ev)"
  by (simp add: quiet_def emit_def)

lemma quiet_bind:
  assumes "quiet m" and "\<And>x. quiet (f x)"
  shows "quiet (bind m f)"
  unfolding quiet_def
proof
  fix h
  obtain r h1 where m: "m h = (r, h1)" by (cases "m h")
  from assms(1) m obtain evs1 where e1: "log h1 = log h @ evs1" "list_all no_login evs1"
    unfolding quiet_def by (metis snd_conv)
  show "\<exists>evs. log (snd (bind m f h)) = log h @ evs \<and> list_all no_login evs"
  proof (cases r)
    case (Inl e)
    with m e1 show ?thesis by (auto simp: bind_def)
  next
    case (Inr x)
    from assms(2)[of x] obtain evs2 where
      e2: "log (snd (f x h1)) = log h1 @ evs2" "list_all no_login evs2"
      unfolding quiet_def by blast
    from Inr m have "bind m f h = f x h1" by (simp add: bind_def)
    with e1 e2 have "log (snd (bind m f h)) = log h @ (evs1 @ evs2)"
      "list_all no_login (evs1 @ evs2)" by simp_all
    then show ?thesis by blast
  qed
qed

lemma quiet_try_catch:
  assumes "quiet m" and "\<And>e. quiet (f e)"
  shows "quiet (try_catch m f)"
  unfolding quiet_def
proof
  fix h
  obtain r h1 where m: "m h = (r, h1)" by (cases "m h")
  from assms(1) m obtain evs1 where e1: "log h1 = log h @ evs1" "list_all no_login evs1"
    unfolding quiet_def by (metis snd_conv)
  show "\<exists>evs. log (snd (try_catch m f h)) = log h @ evs \<and> list_all no_login evs"
  proof (cases r)
    case (Inr x)
    with m e1 show ?thesis by (auto simp: try_catch_def)
  next
    case (Inl e)
    from assms(2)[of e] obtain evs2 where
      e2: "log (snd (f e h1)) = log h1 @ evs2" "list_all no_login evs2"
      unfolding quiet_def by blast
    from Inl m have "try_catch m f h = f e h1" by (simp add: try_catch_def)
    with e1 e2 have "log (snd (try_catch m f h)) = log h @ (evs1 @ evs2)"
      "list_all no_login (evs1 @ evs2)" by simp_all
    then show ?thesis by blast
  qed
qed

lemma quiet_getCachedData: "quiet (getCachedData n)"
  by (simp add: quiet_def getCachedData_state)

lemma quiet_cacheData: "quiet (cacheData n v)"
  by (simp add: quiet_def cacheData_log)

lemma quiet_if: "quiet p \<Longrightarrow> quiet q \<Longrightarrow> quiet (if b then p else q)"
  by simp

lemmas quiet_intros = quiet_bind quiet_try_catch quiet_if quiet_return quiet_throw quiet_lift
  quiet_emit quiet_getCachedData quiet_cacheData

lemma quiet_promptForCredentials: "quiet (promptForCredentials env)"
  unfolding promptForCredentials_def Let_def
  by (intro quiet_intros) (simp_all add: no_login_def)

lemma quiet_fetchSid: "quiet (fetchSid env cookies)"
  unfolding fetchSid_def Let_def
  by (intro quiet_intros) (simp_all add: no_login_def)

lemma quiet_fetchData: "quiet (fetchData env sid cookies)"
  unfolding fetchData_def Let_def
  by (intro quiet_intros) (simp_all add: no_login_def)

lemma quiet_credentials_stage: "quiet (credentials_stage env)"
  unfolding credentials_stage_def
  by (intro quiet_intros quiet_promptForCredentials)

lemma quiet_subscription_stage: "quiet (subscription_stage env cookies)"
  unfolding subscription_stage_def
  by (intro quiet_intros quiet_fetchSid quiet_fetchData)

lemma keeps_return: "keeps_cookies (return x)"
  by (simp add: keeps_cookies_def return_def)

lemma keeps_throw: "keeps_cookies (throw e)"
  by (simp add: keeps_cookies_def throw_def)

lemma keeps_emit: "keeps_cookies (emit ev)"
  by (simp add: keeps_cookies_def emit_def fileExists_def cache_path_def documentsDirectory_def)

lemma keeps_getCachedData: "keeps_cookies (getCachedData n)"
  by (simp add: keeps_cookies_def getCachedData_state)

lemma keeps_cacheData: "n \<noteq> ''cookies.json'' \<Longrightarrow> keeps_cookies (cacheData n v)"
  by (simp add: keeps_cookies_def cacheData_cache_path cacheData_fileExists_other)

lemma keeps_bind:
  assumes "keeps_cookies m" and "\<And>x. keeps_cookies (f x)"
  shows "keeps_cookies (bind m f)"
  unfolding keeps_cookies_def
proof (intro allI impI)
  fix h
  assume ex: "fileExists h (cache_path h ''cookies.json'')"
  obtain r h1 where m: "m h = (r, h1)" by (cases "m h")
  from assms(1) ex m have ex1: "fileExists h1 (cache_path h1 ''cookies.json'')"
    unfolding keeps_cookies_def by (metis snd_conv)
  show "fileExists (snd (bind m f h)) (cache_path (snd (bind m f h)) ''cookies.json'')"
  proof (cases r)
    case (Inl e)
    with m ex1 show ?thesis by (simp add: bind_def)
  next
    case (Inr x)
    with m have "bind m f h = f x h1" by (simp add: bind_def)
    with assms(2)[of x] ex1 show ?thesis by (simp add: keeps_cookies_def)
  qed
qed

lemma keeps_if: "keeps_cookies p \<Longrightarrow> keeps_cookies q \<Longrightarrow> keeps_cookies (if b then p else q)"
  by simp

lemmas keeps_intros = keeps_bind keeps_if keeps_return keeps_throw keeps_emit
  keeps_getCachedData keeps_cacheData

lemma keeps_promptForCredentials: "keeps_cookies (promptForCredentials env)"
  unfolding promptForCredentials_def Let_def
  by (intro keeps_intros)

lemma keeps_credentials_stage: "keeps_cookies (credentials_stage env)"
  unfolding credentials_stage_def
  by (intro keeps_intros keeps_promptForCredentials) simp

lemma push_value_defined: "v \<noteq> Undefined \<Longrightarrow> defined_state (push_value v st)"
  by (induction v st rule: push_value.induct) simp_all

lemma value_token_defined: "value_token st t = Inr ps \<Longrightarrow> defined_state ps"
  by (cases t) (auto intro: push_value_defined)

lemma pstep_defined: "pstep ps t = Inr ps' \<Longrightarrow> defined_state ps'"
  by (cases ps; cases t) (auto intro: push_value_defined split: if_splits)

lemma parse_tokens_defined:
  "parse_tokens ps ts = Inr v \<Longrightarrow> defined_state ps \<Longrightarrow> v \<noteq> Undefined"
proof (induction ts arbitrary: ps)
  case Nil
  then show ?case by (cases ps) auto
next
  case (Cons t ts)
  then show ?case
    by (auto split: sum.splits dest: pstep_defined)
qed

lemma JSON_parse_defined: "JSON_parse v \<noteq> Inr Undefined"
proof
  assume a: "JSON_parse v = Inr Undefined"
  then obtain ts where "parse_tokens (PValue []) ts = Inr Undefined"
    by (auto simp: JSON_parse_def parse_text_def split: sum.splits)
  then show False using parse_tokens_defined[of "PValue []" ts Undefined] by simp
qed

lemma session_stage_cached:
  assumes "fileExists h (cache_path h ''cookies.json'')"
  shows "\<exists>evs. log (snd (session_stage env credentials h)) = log h @ evs \<and> list_all no_login evs"
proof (cases "JSON_parse (readString h (cache_path h ''cookies.json''))")
  case (Inl e)
  with assms have "session_stage env credentials h = (Inl e, h)"
    by (simp add: session_stage_def bind_def getCachedData_alt)
  then show ?thesis by simp
next
  case (Inr k)
  then have "k \<noteq> Undefined" using JSON_parse_defined by metis
  with Inr assms have "session_stage env credentials h = subscription_stage env k h"
    by (simp add: session_stage_def bind_def return_def getCachedData_alt)
  then show ?thesis using quiet_subscription_stage[of env k] by (simp add: quiet_def)
qed

text \<open>
  Claim C4. When something exists under \<^verbatim>\<open>cookies.json\<close>, a run never calls
  \<^verbatim>\<open>fetchToken\<close> and sends no request to the login endpoint, whatever the outside world
  answers and whether the credentials are cached or asked for: among the events that the
  run adds to the log there is no call of \<^verbatim>\<open>fetchToken\<close> and no \<^verbatim>\<open>load\<close> of the login
  URL.
\<close>

theorem run_skips_fetchToken:
  assumes "fileExists h (cache_path h ''cookies.json'')"
  shows "\<exists>evs. log (snd (run env h)) = log h @ evs
           \<and> Invoke ''fetchToken'' \<notin> set evs
           \<and> (\<forall>req. Load req \<in> set evs \<longrightarrow> url req \<noteq> ''https://api.simpel.nl/login'')"
proof -
  obtain r h1 where c: "credentials_stage env h = (r, h1)" by (cases "credentials_stage env h")
  from quiet_credentials_stage[of env] c obtain evs1 where
    e1: "log h1 = log h @ evs1" "list_all no_login evs1"
    unfolding quiet_def by (metis snd_conv)
  from keeps_credentials_stage[of env] assms c
  have ex1: "fileExists h1 (cache_path h1 ''cookies.json'')"
    unfolding keeps_cookies_def by (metis snd_conv)
  have "\<exists>evs. log (snd (run env h)) = log h @ evs \<and> list_all no_login evs"
  proof (cases r)
    case (Inl e)
    with c e1 show ?thesis by (auto simp: run_stages bind_def)
  next
    case (Inr credentials)
    from session_stage_cached[OF ex1, of env credentials] obtain evs2 where
      e2: "log (snd (session_stage env credentials h1)) = log h1 @ evs2" "list_all no_login evs2"
      by blast
    from Inr c have "run env h = session_stage env credentials h1"
      by (simp add: run_stages bind_def)
    with e1 e2 have "log (snd (run env h)) = log h @ (evs1 @ evs2)"
      "list_all no_login (evs1 @ evs2)" by simp_all
    then show ?thesis by blast
  qed
  then obtain evs where "log (snd (run env h)) = log h @ evs" "list_all no_login evs" by blast
  then show ?thesis
    by (auto simp: list_all_iff no_login_def)
qed

theorem run_skips_fetchToken_witness:
  "fileExists cached_host (cache_path cached_host ''cookies.json'')
   \<and> (\<exists>evs. log (snd (run example_env cached_host)) = log cached_host @ evs
           \<and> Invoke ''fetchToken'' \<notin> set evs
           \<and> (\<forall>req. Load req \<in> set evs \<longrightarrow> url req \<noteq> ''https://api.simpel.nl/login''))"
proof -
  have "embedded_json (Arr [Obj [(''name'', Str ''sess''), (''value'', Str ''abc'')]])"
    by simp
  then have "files cached_host (cache_path fresh_host ''cookies.json'') \<noteq> None"
    using cacheData_written[OF JSON_stringify_text_of, of _ "''cookies.json''" fresh_host]
    by (simp add: cached_host_def)
  then have a: "fileExists cached_host (cache_path cached_host ''cookies.json'')"
    by (simp add: fileExists_def cached_host_def cacheData_cache_path)
  from a run_skips_fetchToken[OF a, of example_env] show ?thesis by blast
qed

section \<open>A subscription lookup without the field\<close>

lemma sid_absent_log: "sid_absent (h\<lparr>log := l\<rparr>) = sid_absent h"
  by (simp add: sid_absent_def fileExists_def cache_path_def documentsDirectory_def)

lemma setup_return: "setup_step (return x)"
  by (simp add: setup_step_def return_def)

lemma setup_throw: "setup_step (throw e)"
  by (simp add: setup_step_def throw_def)

lemma setup_lift: "setup_step (lift r)"
  by (simp add: setup_step_def lift_def)

lemma setup_emit:
  "ev \<noteq> Invoke ''fetchSid'' \<Longrightarrow> ev \<noteq> Invoke ''fetchData'' \<Longrightarrow> setup_step (emit ev)"
  by (simp add: setup_step_def emit_def sid_absent_log)

lemma setup_getCachedData: "setup_step (getCachedData n)"
  by (simp add: setup_step_def getCachedData_state)

lemma setup_cacheData: "n \<noteq> ''sid.json'' \<Longrightarrow> setup_step (cacheData n v)"
  by (simp add: setup_step_def sid_absent_def cacheData_cache_path cacheData_fileExists_other
      cacheData_log)

lemma setup_if: "setup_step p \<Longrightarrow> setup_step q \<Longrightarrow> setup_step (if b then p else q)"
  by simp

lemma setup_bind:
  assumes "setup_step m" and "\<And>x. setup_step (f x)"
  shows "setup_step (bind m f)"
  unfolding setup_step_def
proof (intro allI impI)
  fix h
  assume a: "sid_absent h"
  obtain r h1 where m: "m h = (r, h1)" by (cases "m h")
  from assms(1) a m obtain evs1 where
    a1: "sid_absent h1" and e1: "log h1 = log h @ evs1"
      "Invoke ''fetchSid'' \<notin> set evs1" "Invoke ''fetchData'' \<notin> set evs1"
    unfolding setup_step_def by (metis snd_conv)
  show "sid_absent (snd (bind m f h))
      \<and> (\<exists>evs. log (snd (bind m f h)) = log h @ evs
             \<and> Invoke ''fetchSid'' \<notin> set evs \<and> Invoke ''fetchData'' \<notin> set evs)"
  proof (cases r)
    case (Inl e)
    with m a1 e1 show ?thesis by (auto simp: bind_def)
  next
    case (Inr x)
    from assms(2)[of x] a1 obtain evs2 where
      a2: "sid_absent (snd (f x h1))" and e2: "log (snd (f x h1)) = log h1 @ evs2"
        "Invoke ''fetchSid'' \<notin> set evs2" "Invoke ''fetchData'' \<notin> set evs2"
      unfolding setup_step_def by blast
    from Inr m have b: "bind m f h = f x h1" by (simp add: bind_def)
    from e1 e2 have "log (snd (f x h1)) = log h @ (evs1 @ evs2)"
      "Invoke ''fetchSid'' \<notin> set (evs1 @ evs2)" "Invoke ''fetchData'' \<notin> set (evs1 @ evs2)"
      by simp_all
    with a2 b show ?thesis by metis
  qed
qed

lemmas setup_intros = setup_bind setup_if setup_return setup_throw setup_lift setup_emit
  setup_getCachedData setup_cacheData

lemma setup_promptForCredentials: "setup_step (promptForCredentials env)"
  unfolding promptForCredentials_def Let_def
  by (intro setup_intros) simp_all

lemma setup_fetchToken: "setup_step (fetchToken env credentials)"
  unfolding fetchToken_def Let_def
  by (intro setup_intros) simp_all

lemma setup_credentials_stage: "setup_step (credentials_stage env)"
  unfolding credentials_stage_def
  by (intro setup_intros setup_promptForCredentials) simp_all

lemma aborts_bind:
  assumes "setup_step m" and "\<And>x. aborts (f x)"
  shows "aborts (bind m f)"
  unfolding aborts_def
proof (intro allI impI)
  fix h
  assume a: "sid_absent h"
  obtain r h1 where m: "m h = (r, h1)" by (cases "m h")
  from assms(1) a m obtain evs1 where
    a1: "sid_absent h1" and e1: "log h1 = log h @ evs1"
      "Invoke ''fetchSid'' \<notin> set evs1" "Invoke ''fetchData'' \<notin> set evs1"
    unfolding setup_step_def by (metis snd_conv)
  show "sid_absent (snd (bind m f h))
      \<and> (\<exists>e evs. fst (bind m f h) = Inl e \<and> log (snd (bind m f h)) = log h @ evs
             \<and> Invoke ''fetchData'' \<notin> set evs
             \<and> (Invoke ''fetchSid'' \<in> set evs \<longrightarrow> e \<in> {TypeError, HostTypeError}))"
  proof (cases r)
    case (Inl e)
    with m have "bind m f h = (Inl e, h1)" by (simp add: bind_def)
    with a1 e1 show ?thesis by auto
  next
    case (Inr x)
    from assms(2)[of x] a1 obtain e evs2 where
      a2: "sid_absent (snd (f x h1))" and e2: "fst (f x h1) = Inl e"
        "log (snd (f x h1)) = log h1 @ evs2" "Invoke ''fetchData'' \<notin> set evs2"
        "Invoke ''fetchSid'' \<in> set evs2 \<longrightarrow> e \<in> {TypeError, HostTypeError}"
      unfolding aborts_def by blast
    from Inr m have b: "bind m f h = f x h1" by (simp add: bind_def)
    from e1 e2 have "log (snd (f x h1)) = log h @ (evs1 @ evs2)"
      "Invoke ''fetchData'' \<notin> set (evs1 @ evs2)"
      "Invoke ''fetchSid'' \<in> set (evs1 @ evs2) \<longrightarrow> e \<in> {TypeError, HostTypeError}"
      by auto
    with a2 b e2(1) show ?thesis by metis
  qed
qed

lemma fetchSid_fails:
  assumes "overview_loadJSON env = Inr json" and "subscription_id_field json = None"
  shows "fst (fetchSid env cookies h) \<in> {Inl TypeError, Inl HostTypeError}
     \<and> files (snd (fetchSid env cookies h)) = files h"
proof (cases "cookie_header cookies")
  case (Inl e)
  then have "e = TypeError" by (rule cookie_header_fault)
  with Inl show ?thesis by (simp add: fetchSid_def prog_defs)
next
  case (Inr c)
  show ?thesis
    using subscriptionId_read[OF assms(2)] Inr assms(1) cacheData_undefined
    by (auto simp: fetchSid_def prog_defs Let_def split: sum.splits)
qed

lemma fetchSid_TypeError:
  assumes "overview_loadJSON env = Inr json"
    and "\<forall>m. get_prop json ''mainSubscription'' = Inr m \<longrightarrow> m = Undefined \<or> m = Null"
  shows "fst (fetchSid env cookies h) = Inl TypeError"
proof (cases "cookie_header cookies")
  case (Inl e)
  then have "e = TypeError" by (rule cookie_header_fault)
  with Inl show ?thesis by (simp add: fetchSid_def prog_defs)
next
  case (Inr c)
  show ?thesis
  proof (cases "get_prop json ''mainSubscription''")
    case (Inl e)
    then have "e = TypeError" by (rule get_prop_fault)
    with Inl Inr assms(1) show ?thesis by (simp add: fetchSid_def prog_defs Let_def)
  next
    case m: (Inr m)
    with assms(2) have "get_prop m ''subscriptionId'' = Inl TypeError" by auto
    with m Inr assms(1) show ?thesis by (simp add: fetchSid_def prog_defs Let_def)
  qed
qed

lemma fetchSid_state:
  "(\<exists>l. snd (fetchSid env cookies h) = h\<lparr>log := l\<rparr>)
   \<or> (\<exists>l v. snd (fetchSid env cookies h) = snd (cacheData ''sid.json'' v (h\<lparr>log := l\<rparr>)))"
  by (auto simp: fetchSid_def prog_defs Let_def split: sum.splits prod.splits)

lemma fetchSid_events:
  "\<exists>evs. log (snd (fetchSid env cookies h)) = log h @ evs
         \<and> Invoke ''fetchData'' \<notin> set evs"
proof (cases "cookie_header cookies")
  case (Inl e)
  then show ?thesis by (simp add: fetchSid_def prog_defs)
next
  case (Inr c)
  then show ?thesis by (simp add: fetchSid_log)
qed

lemma fetchSid_sid_absent:
  assumes "overview_loadJSON env = Inr json" and "subscription_id_field json = None"
    and "sid_absent h"
  shows "sid_absent (snd (fetchSid env cookies h))"
proof -
  let ?h = "snd (fetchSid env cookies h)"
  have f: "files ?h = files h" using fetchSid_fails[OF assms(1,2)] by simp
  from fetchSid_state[of env cookies h]
  have d: "documents ?h = documents h
        \<and> (cache_path h ''sid.json'' \<in> dirs ?h \<longleftrightarrow> cache_path h ''sid.json'' \<in> dirs h)"
  proof (elim disjE exE)
    fix l
    assume "?h = h\<lparr>log := l\<rparr>"
    then show ?thesis by simp
  next
    fix l v
    assume s: "?h = snd (cacheData ''sid.json'' v (h\<lparr>log := l\<rparr>))"
    have "cache_path (h\<lparr>log := l\<rparr>) ''sid.json'' = cache_path h ''sid.json''"
      by (simp add: cache_path_def documentsDirectory_def)
    with cacheData_dirs_other[of "h\<lparr>log := l\<rparr>" "''sid.json''" "''sid.json''" v]
      cacheData_documents[of "''sid.json''" v "h\<lparr>log := l\<rparr>"] s
    show ?thesis by simp
  qed
  then have "cache_path ?h ''sid.json'' = cache_path h ''sid.json''"
    by (simp add: cache_path_def documentsDirectory_def)
  with f d assms(3) show ?thesis
    by (simp add: sid_absent_def fileExists_def)
qed

lemma aborts_subscription_stage:
  assumes "overview_loadJSON env = Inr json" and "subscription_id_field json = None"
  shows "aborts (subscription_stage env cookies)"
  unfolding aborts_def
proof (intro allI impI)
  fix h
  assume a: "sid_absent h"
  let ?r = "fetchSid env cookies h"
  from fetchSid_fails[OF assms, of cookies h] obtain e where
    e: "fst ?r = Inl e" "e \<in> {TypeError, HostTypeError}" by auto
  from a have "getCachedData ''sid.json'' h = (Inr Undefined, h)"
    by (simp add: sid_absent_def getCachedData_absent)
  with e(1) have s: "subscription_stage env cookies h = (Inl e, snd ?r)"
    by (cases ?r) (simp add: subscription_stage_def bind_def)
  from fetchSid_events[of env cookies h] obtain evs where
    "log (snd ?r) = log h @ evs" "Invoke ''fetchData'' \<notin> set evs" by blast
  with s e(2) fetchSid_sid_absent[OF assms a, of cookies]
  show "sid_absent (snd (subscription_stage env cookies h))
      \<and> (\<exists>e evs. fst (subscription_stage env cookies h) = Inl e
             \<and> log (snd (subscription_stage env cookies h)) = log h @ evs
             \<and> Invoke ''fetchData'' \<notin> set evs
             \<and> (Invoke ''fetchSid'' \<in> set evs \<longrightarrow> e \<in> {TypeError, HostTypeError}))"
    by auto
qed

lemma aborts_run:
  assumes "overview_loadJSON env = Inr json" and "subscription_id_field json = None"
  shows "aborts (run env)"
  unfolding run_stages session_stage_def
  by (intro aborts_bind setup_credentials_stage setup_getCachedData setup_intros
        setup_fetchToken aborts_subscription_stage[OF assms])

text \<open>
  Claim C1. When the overview response lacks the subscription-id field, \<^verbatim>\<open>fetchSid\<close>
  ends with a fault and no subscription id is cached; the fault is not handled, so a run
  that has nothing cached under \<^verbatim>\<open>sid.json\<close> ends with a fault as well.

  \<^item> \<^verbatim>\<open>fetchSid\<close> has no check of its own. When the main subscription is missing or
    \<^verbatim>\<open>null\<close>, reading \<^verbatim>\<open>subscriptionId\<close> from it raises a \<^verbatim>\<open>TypeError\<close>. When the main
    subscription is there and only its member is missing, the read gives \<^verbatim>\<open>undefined\<close>,
    which \<^verbatim>\<open>cacheData\<close> hands to \<^verbatim>\<open>writeString\<close>: the fault is then the host's
    rejection. In both cases no file is written or changed.
  \<^item> On a host with nothing under \<^verbatim>\<open>sid.json\<close>, \<open>run\<close> returns a fault, never calls
    \<^verbatim>\<open>fetchData\<close>, and leaves nothing under \<^verbatim>\<open>sid.json\<close>; when the run got as far as
    calling \<^verbatim>\<open>fetchSid\<close>, its fault is the one \<^verbatim>\<open>fetchSid\<close> raised.
\<close>

theorem fetchSid_missing_field:
  assumes "overview_loadJSON env = Inr json" and "subscription_id_field json = None"
  shows "fst (fetchSid env cookies h) \<in> {Inl TypeError, Inl HostTypeError}
     \<and> files (snd (fetchSid env cookies h)) = files h
     \<and> ((\<forall>m. get_prop json ''mainSubscription'' = Inr m \<longrightarrow> m = Undefined \<or> m = Null)
          \<longrightarrow> fst (fetchSid env cookies h) = Inl TypeError)
     \<and> (\<not> fileExists h (cache_path h ''sid.json'') \<longrightarrow>
          (\<exists>e evs. fst (run env h) = Inl e
              \<and> log (snd (run env h)) = log h @ evs
              \<and> Invoke ''fetchData'' \<notin> set evs
              \<and> (Invoke ''fetchSid'' \<in> set evs \<longrightarrow> e \<in> {TypeError, HostTypeError}))
          \<and> \<not> fileExists (snd (run env h)) (cache_path (snd (run env h)) ''sid.json''))"
  using fetchSid_fails[OF assms, of cookies h] fetchSid_TypeError[OF assms(1), of cookies h]
    aborts_run[OF assms]
  unfolding aborts_def sid_absent_def by blast

theorem fetchSid_missing_field_witness:
  "overview_loadJSON (example_env\<lparr>overview_loadJSON := Inr (Obj [])\<rparr>) = Inr (Obj [])
   \<and> subscription_id_field (Obj []) = None
   \<and> \<not> fileExists cached_host (cache_path cached_host ''sid.json'')
   \<and> fst (fetchSid (example_env\<lparr>overview_loadJSON := Inr (Obj [])\<rparr>)
             (Arr [Obj [(''name'', Str ''sess''), (''value'', Str ''abc'')]]) cached_host)
       = Inl TypeError
   \<and> files (snd (fetchSid (example_env\<lparr>overview_loadJSON := Inr (Obj [])\<rparr>)
             (Arr [Obj [(''name'', Str ''sess''), (''value'', Str ''abc'')]]) cached_host))
       = files cached_host
   \<and> fst (run (example_env\<lparr>overview_loadJSON := Inr (Obj [])\<rparr>) cached_host) = Inl TypeError
   \<and> Invoke ''fetchSid''
        \<in> set (log (snd (run (example_env\<lparr>overview_loadJSON := Inr (Obj [])\<rparr>) cached_host)))
   \<and> Invoke ''fetchData''
        \<notin> set (log (snd (run (example_env\<lparr>overview_loadJSON := Inr (Obj [])\<rparr>) cached_host)))
   \<and> \<not> fileExists (snd (run (example_env\<lparr>overview_loadJSON := Inr (Obj [])\<rparr>) cached_host))
          (cache_path (snd (run (example_env\<lparr>overview_loadJSON := Inr (Obj [])\<rparr>) cached_host))
             ''sid.json'')"
proof -
  let ?env = "example_env\<lparr>overview_loadJSON := Inr (Obj [])\<rparr>"
  let ?cookies = "Arr [Obj [(''name'', Str ''sess''), (''value'', Str ''abc'')]]"
  have a: "overview_loadJSON ?env = Inr (Obj [])" by simp
  have b: "subscription_id_field (Obj []) = None" by (simp add: subscription_id_field_def)
  have c: "\<not> fileExists cached_host (cache_path cached_host ''sid.json'')" by code_simp
  have d: "\<forall>m. get_prop (Obj []) ''mainSubscription'' = Inr m \<longrightarrow> m = Undefined \<or> m = Null"
    by simp
  have l: "log cached_host = []" by code_simp
  have r: "fst (run ?env cached_host) = Inl TypeError" by code_simp
  have s: "Invoke ''fetchSid'' \<in> set (log (snd (run ?env cached_host)))" by code_simp
  from fetchSid_missing_field[OF a b, of ?cookies cached_host] c d l
  have "fst (fetchSid ?env ?cookies cached_host) = Inl TypeError"
    and "files (snd (fetchSid ?env ?cookies cached_host)) = files cached_host"
    and "Invoke ''fetchData'' \<notin> set (log (snd (run ?env cached_host)))"
    and "\<not> fileExists (snd (run ?env cached_host))
           (cache_path (snd (run ?env cached_host)) ''sid.json'')"
    by auto
  with a b c r s show ?thesis by blast
qed

end
